theory Spec2Isabelle
  imports Complex_Main "HOL-Library.Multiset"
begin

section \<open>The step clock (AgentClock.hh, class PseudoClock)\<close>

text \<open>
  The header declares the three counters of the step clock and its two operations; the
  bodies of the constructor and of \<open>getNextTick\<close> live in a file that is not part of the
  sources at hand. A tick is a non-negative integer (spec, section 3), so the counters
  are natural numbers. The sleep time is the only wall-clock quantity the clock holds.
\<close>

record PseudoClock =
  m_sleepSeconds :: rat
  m_tick :: nat
  m_internalTicks :: nat
  m_stepsPerTick :: nat

text \<open>
  Modelled from the spec: the constructor \<open>PseudoClock(sleepSeconds, stepsPerTick)\<close>,
  whose body is missing. Both counters start at zero.
\<close>

definition PseudoClock_new :: "rat \<Rightarrow> nat \<Rightarrow> PseudoClock" where
  "PseudoClock_new sleepSeconds stepsPerTick =
     \<lparr>m_sleepSeconds = sleepSeconds, m_tick = 0, m_internalTicks = 0,
      m_stepsPerTick = stepsPerTick\<rparr>"

text \<open>
  Modelled from the spec: \<open>PseudoClock::getNextTick\<close>, whose body is missing. Section 4.1:
  each call increments an internal counter, and the externally visible tick advances
  every \<open>steps_per_tick\<close> calls. The call returns the visible tick and then advances it
  when the incremented counter has completed a group of \<open>steps_per_tick\<close> calls: the
  sequences of section 8 (property 4 and scenario S3) start with \<open>steps_per_tick\<close> polls
  of tick 0, which fixes this order.
\<close>

definition getNextTick :: "PseudoClock \<Rightarrow> nat \<times> PseudoClock" where
  "getNextTick c =
     (let t = m_tick c;
          n = m_internalTicks c + 1
      in (t, c\<lparr>m_internalTicks := n,
                m_tick := (if n mod m_stepsPerTick c = 0 then t + 1 else t)\<rparr>))"

text \<open>Polling the clock \<open>n\<close> times in a row; the ticks returned, in order.\<close>

fun poll :: "nat \<Rightarrow> PseudoClock \<Rightarrow> nat list" where
  "poll 0 c = []"
| "poll (Suc n) c = (case getNextTick c of (t, c') \<Rightarrow> t # poll n c')"

definition clock_inv :: "PseudoClock \<Rightarrow> bool" where
  "clock_inv c = (0 < m_stepsPerTick c \<and> m_tick c = m_internalTicks c div m_stepsPerTick c)"

section \<open>Failed checks\<close>

type_synonym LabelStr = string

text \<open>
  Modelled from the spec: the macro \<open>checkError(condition, message)\<close>, declared in
  Error.hh, which is not part of the sources at hand. Section 7 of the spec makes a
  failed check a fatal error that ends the operation, so a call whose check fails
  returns the error of that check and nothing else of the call happens. One constructor
  per \<open>checkError\<close> message of the functions modelled below.
\<close>

datatype error =
    CycleDetected
  | InvalidId LabelStr
  | LatencyExceedsLookAhead
  | MissingAttribute LabelStr
  | AlreadyRegistered LabelStr
  | UnknownDomainType
  | CountSizeMismatch nat nat

section \<open>Reactor priorities (TeleoReactor.cc, getPriority and sort)\<close>

text \<open>
  A \<open>TeleoReactorId\<close> is the position of a reactor in the agent's list of reactors, so
  \<open>getReactorCount\<close> is the length of that list and an id is valid when it is a position
  of the list. A reactor enters the priority computation only through the virtual
  \<open>queryTimelineModes\<close>, which fills the list of its external and the list of its
  internal timelines; the agent's list holds that answer for each reactor.
  \<open>Agent::getOwner\<close> reads the agent's table of timeline owners, which is a parameter
  here (Agent.cc is not part of the sources at hand); \<open>None\<close> is the id \<open>noId\<close>.
\<close>

type_synonym TeleoReactorId = nat

record Agent =
  m_reactors :: "(LabelStr list \<times> LabelStr list) list"
  m_ownersByTimeline :: "LabelStr \<Rightarrow> TeleoReactorId option"

definition getReactorCount :: "Agent \<Rightarrow> nat" where
  "getReactorCount ag = length (m_reactors ag)"

definition getOwner :: "Agent \<Rightarrow> LabelStr \<Rightarrow> TeleoReactorId option" where
  "getOwner ag timeline = m_ownersByTimeline ag timeline"

definition externals :: "Agent \<Rightarrow> TeleoReactorId \<Rightarrow> LabelStr list" where
  "externals ag r = fst (m_reactors ag ! r)"

definition internals :: "Agent \<Rightarrow> TeleoReactorId \<Rightarrow> LabelStr list" where
  "internals ag r = snd (m_reactors ag ! r)"

text \<open>
  \<open>getPriority\<close> with its loop over the external timelines. The recursion depth
  \<open>callCount\<close> starts at 0 and only grows, so it is a natural number; the priority is the
  \<open>int\<close> of the source (it stays far below \<open>2^31\<close>: it is bounded by the reactor count).
  The first check fails with \<open>CycleDetected\<close>, the check of the owner with \<open>InvalidId\<close>;
  an error of a nested call ends the whole computation, as the exception does.
\<close>

function getPriority :: "Agent \<Rightarrow> TeleoReactorId \<Rightarrow> nat \<Rightarrow> error + int"
  and getPriority_loop :: "Agent \<Rightarrow> LabelStr list \<Rightarrow> nat \<Rightarrow> int \<Rightarrow> error + int"
where
  "getPriority ag r callCount =
     (if \<not> callCount < getReactorCount ag then Inl CycleDetected
      else if externals ag r = [] then Inr 0
      else (case getPriority_loop ag (externals ag r) callCount 0 of
              Inl e \<Rightarrow> Inl e
            | Inr priority \<Rightarrow> Inr (1 + priority)))"
| "getPriority_loop ag [] callCount priority = Inr priority"
| "getPriority_loop ag (timeline # rest) callCount priority =
     (case getOwner ag timeline of
        None \<Rightarrow> Inl (InvalidId timeline)
      | Some owner \<Rightarrow>
          if \<not> owner < getReactorCount ag then Inl (InvalidId timeline)
          else (case getPriority ag owner (callCount + 1) of
                  Inl e \<Rightarrow> Inl e
                | Inr p \<Rightarrow> getPriority_loop ag rest callCount (max priority p)))"
  by pat_completeness auto

termination
  by (relation "inv_image (less_than <*lex*> less_than)
        (\<lambda>x. case x of
           Inl (ag, r, c) \<Rightarrow> (getReactorCount ag - c, 0)
         | Inr (ag, ts, c, p) \<Rightarrow> (getReactorCount ag - Suc c, Suc (length ts)))")
     auto

declare getPriority.simps [simp del]

text \<open>
  One pass of the inner \<open>for\<close> loop of \<open>sort\<close>, from index \<open>i\<close>: the vector after the pass
  and the flag \<open>swapped\<close>. The comparison calls \<open>getPriority()\<close> (the default argument is
  0) on \<open>b\<close> and then on \<open>a\<close>. \<open>cnt\<close> is the \<open>int count\<close> of the source: it is \<open>-1\<close> for
  the empty vector (\<open>size() - 1\<close> wraps and converts to \<open>-1\<close>); the index \<open>i\<close> starts at 0 and
  only grows. The guard \<open>i < count\<close> keeps both reads inside the vector.
\<close>

function sort_for ::
  "Agent \<Rightarrow> TeleoReactorId list \<Rightarrow> nat \<Rightarrow> int \<Rightarrow> bool \<Rightarrow> error + (TeleoReactorId list \<times> bool)"
where
  "sort_for ag reactors i cnt swapped =
     (if int i < cnt then
        (case getPriority ag (reactors ! (i + 1)) 0 of
           Inl e \<Rightarrow> Inl e
         | Inr pb \<Rightarrow>
            (case getPriority ag (reactors ! i) 0 of
               Inl e \<Rightarrow> Inl e
             | Inr pa \<Rightarrow>
                if pb < pa
                then sort_for ag (reactors[i := reactors ! (i + 1), i + 1 := reactors ! i])
                       (i + 1) cnt True
                else sort_for ag reactors (i + 1) cnt swapped))
      else Inr (reactors, swapped))"
  by pat_completeness auto

termination
  by (relation "measure (\<lambda>(ag, reactors, i, cnt, swapped). nat (cnt - int i))") auto

declare sort_for.simps [simp del]

text \<open>
  The outer \<open>while (swapped)\<close> loop. Nothing in its text bounds the number of passes, so
  it is a partial function: \<open>None\<close> is the loop that never ends.
\<close>

partial_function (option) sort_while ::
  "Agent \<Rightarrow> int \<Rightarrow> TeleoReactorId list \<Rightarrow> (error + TeleoReactorId list) option"
where
  "sort_while ag cnt reactors =
     (case sort_for ag reactors 0 cnt False of
        Inl e \<Rightarrow> Some (Inl e)
      | Inr (reactors', swapped) \<Rightarrow>
          if swapped then sort_while ag cnt reactors' else Some (Inr reactors'))"

declare sort_while.simps [code]

definition TeleoReactor_sort ::
  "Agent \<Rightarrow> TeleoReactorId list \<Rightarrow> (error + TeleoReactorId list) option" where
  "TeleoReactor_sort ag reactors = sort_while ag (int (length reactors) - 1) reactors"

subsection \<open>The dependency graph and the example agents\<close>

text \<open>
  Spec, section 3: there is an edge from \<open>R\<close> to \<open>S\<close> whenever \<open>R\<close> has an external
  timeline whose owner is \<open>S\<close>. This is the graph \<open>getPriority\<close> walks.
\<close>

definition dependency :: "Agent \<Rightarrow> (TeleoReactorId \<times> TeleoReactorId) set" where
  "dependency ag =
     {(r, s). r < getReactorCount ag \<and> s < getReactorCount ag \<and>
              (\<exists>t \<in> set (externals ag r). getOwner ag t = Some s)}"

text \<open>
  \<open>R\<close> depends on \<open>S\<close>, in the words of the sort's contract: some external timeline of
  \<open>R\<close> is an internal timeline of \<open>S\<close>.
\<close>

definition dependsOn :: "Agent \<Rightarrow> TeleoReactorId \<Rightarrow> TeleoReactorId \<Rightarrow> bool" where
  "dependsOn ag r s = (\<exists>t \<in> set (externals ag r). t \<in> set (internals ag s))"

text \<open>
  Two properties of the owner table that the agent establishes when it is built (in
  Agent.cc): every external timeline of a reactor has a valid owner, and the owner of
  an internal timeline of \<open>S\<close> is \<open>S\<close>.
\<close>

definition owners_valid :: "Agent \<Rightarrow> bool" where
  "owners_valid ag =
     (\<forall>r < getReactorCount ag. \<forall>t \<in> set (externals ag r).
        \<exists>s. getOwner ag t = Some s \<and> s < getReactorCount ag)"

definition owners_of_internals :: "Agent \<Rightarrow> bool" where
  "owners_of_internals ag =
     (\<forall>s < getReactorCount ag. \<forall>t \<in> set (internals ag s). getOwner ag t = Some s)"

text \<open>A reactor from which the dependency edges lead into a cycle.\<close>

definition reaches_cycle :: "Agent \<Rightarrow> TeleoReactorId \<Rightarrow> bool" where
  "reaches_cycle ag r = (\<exists>c. (r, c) \<in> (dependency ag)\<^sup>* \<and> (c, c) \<in> (dependency ag)\<^sup>+)"

text \<open>The number \<open>getPriority()\<close> returns for a reactor, when it returns one.\<close>

definition priorityOf :: "Agent \<Rightarrow> TeleoReactorId \<Rightarrow> int" where
  "priorityOf ag r = (case getPriority ag r 0 of Inl e \<Rightarrow> 0 | Inr p \<Rightarrow> p)"

text \<open>The reactors that depend on \<open>r\<close>, directly or not, and \<open>r\<close> itself.\<close>

definition dependents :: "Agent \<Rightarrow> TeleoReactorId \<Rightarrow> TeleoReactorId set" where
  "dependents ag r = {y. (y, r) \<in> (dependency ag)\<^sup>*}"

text \<open>The number of pairs of a list of priorities that stand in the wrong order.\<close>

fun inversions :: "int list \<Rightarrow> nat" where
  "inversions [] = 0"
| "inversions (x # xs) = length (filter (\<lambda>y. y < x) xs) + inversions xs"

text \<open>
  A chain of three reactors (reactor 1 reads the timeline of reactor 0, reactor 2 reads
  both), and the two reactors of scenario S2 of the spec, each reading the other's
  timeline.
\<close>

definition chain_agent :: Agent where
  "chain_agent =
     \<lparr>m_reactors = [([], [''clock'']), ([''clock''], [''nav'']), ([''nav'', ''clock''], [''out''])],
      m_ownersByTimeline = [''clock'' \<mapsto> 0, ''nav'' \<mapsto> 1, ''out'' \<mapsto> 2]\<rparr>"

definition cycle_agent :: Agent where
  "cycle_agent =
     \<lparr>m_reactors = [([''y_tl''], [''x_tl'']), ([''x_tl''], [''y_tl''])],
      m_ownersByTimeline = [''x_tl'' \<mapsto> 0, ''y_tl'' \<mapsto> 1]\<rparr>"

section \<open>The reactor base class (TeleoReactor.cc)\<close>

text \<open>
  The tick type \<open>TICK\<close> is declared in TREXDefs.hh, which is not among the sources; the
  constructor fills it from \<open>atoi\<close>, so it is an integer here.
\<close>

type_synonym TICK = int

text \<open>
  A goal token, as far as \<open>request\<close> and \<open>recall\<close> use it: its identity and the result of
  \<open>toString()\<close>.
\<close>

datatype Token = Token (token_key: nat) (token_toString: string)

type_synonym TokenId = Token

text \<open>
  The data members of the base class that the functions of TeleoReactor.cc read or
  write. The connectors \<open>m_thisObserver\<close> and \<open>m_thisServer\<close> and the two CPU-time
  accumulators are left out: they hold no tick. The constructors leave the two counters
  unset and \<open>doHandleInit\<close> zeroes them before the first tick; the model starts them at 0.
\<close>

record TeleoReactor =
  m_name :: LabelStr
  m_agentName :: LabelStr
  m_lookAhead :: TICK
  m_latency :: TICK
  m_shouldLog :: bool
  m_syncCount :: nat
  m_searchCount :: nat

text \<open>
  Everything outside the base-class members that a call on a reactor can change: the
  agent's current tick and its log of requests and recalls (the bodies of
  \<open>Agent::logRequest\<close> and \<open>Agent::logRecall\<close> are not among the sources: the model keeps
  the goals they were called with, in call order), the lines written to \<open>TREXLog()\<close>, and
  the state of the derived reactor classes. \<open>request\<close> and \<open>recall\<close> call the agent first,
  so the agent exists when \<open>getCurrentTick\<close> asks for its tick.
\<close>

record 'd World =
  w_currentTick :: TICK
  w_requestLog :: "TokenId list"
  w_recallLog :: "TokenId list"
  w_trexLog :: "string list"
  w_derived :: 'd

text \<open>
  The virtual functions a derived reactor class supplies. They work on the world.
  TeleoReactor.hh is not among the sources; the members \<open>m_lookAhead\<close> and \<open>m_latency\<close>
  are taken to be private to the base class (its own connector \<open>TeleoServer\<close> reads them
  through \<open>getLookAhead\<close> and \<open>getLatency\<close>), so a hook has no access to them.
\<close>

record ('o, 'd) Hooks =
  synchronize :: "'d World \<Rightarrow> bool \<times> 'd World"
  resume :: "'d World \<Rightarrow> 'd World"
  handleInit :: "TICK \<Rightarrow> 'd World \<Rightarrow> 'd World"
  handleTickStart :: "'d World \<Rightarrow> 'd World"
  notify :: "'o \<Rightarrow> 'd World \<Rightarrow> 'd World"
  handleRequest :: "TokenId \<Rightarrow> 'd World \<Rightarrow> 'd World"
  handleRecall :: "TokenId \<Rightarrow> 'd World \<Rightarrow> 'd World"

text \<open>
  The bodies TeleoReactor.cc gives to \<open>notify\<close>, \<open>handleRequest\<close> and \<open>handleRecall\<close> are
  empty; the other hooks are given here as doing nothing too.
\<close>

definition default_hooks :: "('o, 'd) Hooks" where
  "default_hooks =
     \<lparr>synchronize = (\<lambda>w. (True, w)), resume = (\<lambda>w. w), handleInit = (\<lambda>t w. w),
      handleTickStart = (\<lambda>w. w), notify = (\<lambda>obs w. w),
      handleRequest = (\<lambda>goal w. w), handleRecall = (\<lambda>goal w. w)\<rparr>"

text \<open>
  The constructor \<open>TeleoReactor(agentName, name, lookAhead, latency, log)\<close>: the member
  initialisers, then the check of \<open>m_latency <= m_lookAhead\<close>.
\<close>

definition TeleoReactor_new ::
  "LabelStr \<Rightarrow> LabelStr \<Rightarrow> TICK \<Rightarrow> TICK \<Rightarrow> bool \<Rightarrow> error + TeleoReactor" where
  "TeleoReactor_new agentName name lookAhead latency shouldLog =
     (let this = \<lparr>m_name = name, m_agentName = agentName, m_lookAhead = lookAhead,
                   m_latency = latency, m_shouldLog = shouldLog, m_syncCount = 0, m_searchCount = 0\<rparr>
      in if \<not> m_latency this \<le> m_lookAhead this then Inl LatencyExceedsLookAhead
         else Inr this)"

text \<open>
  Modelled from the spec: \<open>extractData(configData, field)\<close>, declared in a header that is
  not among the sources. Section 6: a missing required field of a reactor's
  configuration is a fatal configuration error. The configuration element is the map
  from attribute names to their text.
\<close>

definition extractData :: "(LabelStr \<Rightarrow> string option) \<Rightarrow> LabelStr \<Rightarrow> error + string" where
  "extractData configData field =
     (case configData field of None \<Rightarrow> Inl (MissingAttribute field) | Some v \<Rightarrow> Inr v)"

text \<open>
  Library functions the constructor from a configuration element calls and the final
  tick it reads from the agent: parameters of the model.
\<close>

record XmlLib =
  atoi :: "string \<Rightarrow> int"
  string_cast_bool :: "bool \<Rightarrow> string option \<Rightarrow> bool"
  getFinalTick :: TICK

text \<open>
  \<open>getLookAheadFromXML\<close>: the agent's final tick when the attribute is absent.
\<close>

definition getLookAheadFromXML ::
  "XmlLib \<Rightarrow> (LabelStr \<Rightarrow> string option) \<Rightarrow> error + TICK" where
  "getLookAheadFromXML lib configData =
     (if configData ''lookAhead'' = None then Inr (getFinalTick lib)
      else (case extractData configData ''lookAhead'' of
              Inl e \<Rightarrow> Inl e
            | Inr v \<Rightarrow> Inr (atoi lib v)))"

text \<open>
  The constructor \<open>TeleoReactor(agentName, configData, logDefault)\<close>, in the order of its
  member initialisers, then the same check.
\<close>

definition TeleoReactor_fromXML ::
  "XmlLib \<Rightarrow> LabelStr \<Rightarrow> (LabelStr \<Rightarrow> string option) \<Rightarrow> bool \<Rightarrow> error + TeleoReactor" where
  "TeleoReactor_fromXML lib agentName configData logDefault =
     (case extractData configData ''name'' of
        Inl e \<Rightarrow> Inl e
      | Inr name \<Rightarrow>
         (case getLookAheadFromXML lib configData of
            Inl e \<Rightarrow> Inl e
          | Inr lookAhead \<Rightarrow>
             (case extractData configData ''latency'' of
                Inl e \<Rightarrow> Inl e
              | Inr latency \<Rightarrow>
                 (let this = \<lparr>m_name = name, m_agentName = agentName, m_lookAhead = lookAhead,
                               m_latency = atoi lib latency,
                               m_shouldLog = string_cast_bool lib logDefault (configData ''log''),
                               m_syncCount = 0, m_searchCount = 0\<rparr>
                  in if \<not> m_latency this \<le> m_lookAhead this then Inl LatencyExceedsLookAhead
                     else Inr this))))"

definition getLatency :: "TeleoReactor \<Rightarrow> TICK" where
  "getLatency this = m_latency this"

definition getLookAhead :: "TeleoReactor \<Rightarrow> TICK" where
  "getLookAhead this = m_lookAhead this"

definition getName :: "TeleoReactor \<Rightarrow> LabelStr" where
  "getName this = m_name this"

text \<open>
  The wrappers the agent calls. Each counts the call or resets the counters and hands
  over to the hook. The CPU-time measurement around the hook and the fields
  \<open>doHandleInit\<close> adds to the tick log are left out.
\<close>

definition doSynchronize ::
  "('o, 'd) Hooks \<Rightarrow> TeleoReactor \<times> 'd World \<Rightarrow> bool \<times> TeleoReactor \<times> 'd World" where
  "doSynchronize hooks s =
     (case s of (this, w) \<Rightarrow>
        (case synchronize hooks w of
           (ok, w') \<Rightarrow> (ok, this\<lparr>m_syncCount := m_syncCount this + 1\<rparr>, w')))"

definition doResume ::
  "('o, 'd) Hooks \<Rightarrow> TeleoReactor \<times> 'd World \<Rightarrow> TeleoReactor \<times> 'd World" where
  "doResume hooks s =
     (case s of (this, w) \<Rightarrow> (this\<lparr>m_searchCount := m_searchCount this + 1\<rparr>, resume hooks w))"

definition doHandleInit ::
  "('o, 'd) Hooks \<Rightarrow> TICK \<Rightarrow> TeleoReactor \<times> 'd World \<Rightarrow> TeleoReactor \<times> 'd World" where
  "doHandleInit hooks initialTick s =
     (case s of (this, w) \<Rightarrow>
        (this\<lparr>m_syncCount := 0, m_searchCount := 0\<rparr>, handleInit hooks initialTick w))"

definition doHandleTickStart ::
  "('o, 'd) Hooks \<Rightarrow> TeleoReactor \<times> 'd World \<Rightarrow> TeleoReactor \<times> 'd World" where
  "doHandleTickStart hooks s =
     (case s of (this, w) \<Rightarrow>
        (this\<lparr>m_syncCount := 0, m_searchCount := 0\<rparr>, handleTickStart hooks w))"

text \<open>
  Writing an integer to a stream: its decimal digits, with a minus sign when it is
  negative.
\<close>

definition digit_char :: "nat \<Rightarrow> char" where
  "digit_char d = ''0123456789'' ! d"

fun show_nat :: "nat \<Rightarrow> string" where
  "show_nat n =
     (if n < 10 then [digit_char n]
      else show_nat (n div 10) @ [digit_char (n mod 10)])"

declare show_nat.simps [simp del]

definition show_int :: "int \<Rightarrow> string" where
  "show_int i = (if i < 0 then CHR ''-'' # show_nat (nat (- i)) else show_nat (nat i))"

definition getCurrentTick :: "'d World \<Rightarrow> TICK" where
  "getCurrentTick w = w_currentTick w"

text \<open>
  \<open>nameString()\<close>: \<open>[name][tick]\<close>.
\<close>

definition nameString :: "TeleoReactor \<Rightarrow> 'd World \<Rightarrow> string" where
  "nameString this w = ''['' @ getName this @ '']['' @ show_int (getCurrentTick w) @ '']''"

text \<open>
  The two logs of the agent and the log stream: each call appends.
\<close>

definition logRequest :: "TokenId \<Rightarrow> 'd World \<Rightarrow> 'd World" where
  "logRequest goal w = w\<lparr>w_requestLog := w_requestLog w @ [goal]\<rparr>"

definition logRecall :: "TokenId \<Rightarrow> 'd World \<Rightarrow> 'd World" where
  "logRecall goal w = w\<lparr>w_recallLog := w_recallLog w @ [goal]\<rparr>"

definition TREXLog :: "string \<Rightarrow> 'd World \<Rightarrow> 'd World" where
  "TREXLog line w = w\<lparr>w_trexLog := w_trexLog w @ [line]\<rparr>"

text \<open>
  \<open>TeleoReactor::request\<close> and \<open>TeleoReactor::recall\<close>: log with the agent, write the line
  to the log stream, then delegate to the hook.
\<close>

definition TeleoReactor_request ::
  "('o, 'd) Hooks \<Rightarrow> TeleoReactor \<Rightarrow> TokenId \<Rightarrow> 'd World \<Rightarrow> 'd World" where
  "TeleoReactor_request hooks this goal w =
     (let w1 = logRequest goal w;
          w2 = TREXLog (nameString this w1 @ ''Request received: '' @ token_toString goal) w1
      in handleRequest hooks goal w2)"

definition TeleoReactor_recall ::
  "('o, 'd) Hooks \<Rightarrow> TeleoReactor \<Rightarrow> TokenId \<Rightarrow> 'd World \<Rightarrow> 'd World" where
  "TeleoReactor_recall hooks this goal w =
     (let w1 = logRecall goal w;
          w2 = TREXLog (nameString this w1 @ ''Recall received: '' @ token_toString goal) w1
      in handleRecall hooks goal w2)"

definition TeleoReactor_notify ::
  "('o, 'd) Hooks \<Rightarrow> 'o \<Rightarrow> 'd World \<Rightarrow> 'd World" where
  "TeleoReactor_notify hooks observation w = notify hooks observation w"

text \<open>
  The connector \<open>TeleoServer\<close> holds the id of its reactor and forwards each call to it.
  \<open>deref\<close> gives the reactor an id refers to and \<open>vtable\<close> the hooks of its class.
\<close>

record TeleoServer =
  m_reactor :: TeleoReactorId

definition TeleoServer_request ::
  "(TeleoReactorId \<Rightarrow> ('o, 'd) Hooks) \<Rightarrow> (TeleoReactorId \<Rightarrow> TeleoReactor) \<Rightarrow>
     TeleoServer \<Rightarrow> TokenId \<Rightarrow> 'd World \<Rightarrow> 'd World" where
  "TeleoServer_request vtable deref server goal w =
     TeleoReactor_request (vtable (m_reactor server)) (deref (m_reactor server)) goal w"

definition TeleoServer_recall ::
  "(TeleoReactorId \<Rightarrow> ('o, 'd) Hooks) \<Rightarrow> (TeleoReactorId \<Rightarrow> TeleoReactor) \<Rightarrow>
     TeleoServer \<Rightarrow> TokenId \<Rightarrow> 'd World \<Rightarrow> 'd World" where
  "TeleoServer_recall vtable deref server goal w =
     TeleoReactor_recall (vtable (m_reactor server)) (deref (m_reactor server)) goal w"

definition TeleoServer_getLatency :: "(TeleoReactorId \<Rightarrow> TeleoReactor) \<Rightarrow> TeleoServer \<Rightarrow> TICK" where
  "TeleoServer_getLatency deref server = getLatency (deref (m_reactor server))"

definition TeleoServer_getLookAhead :: "(TeleoReactorId \<Rightarrow> TeleoReactor) \<Rightarrow> TeleoServer \<Rightarrow> TICK" where
  "TeleoServer_getLookAhead deref server = getLookAhead (deref (m_reactor server))"

text \<open>
  The calls a reactor receives during its lifetime, and the state after a sequence of
  them.
\<close>

datatype 'o reactor_call =
    CallSynchronize
  | CallResume
  | CallHandleInit TICK
  | CallHandleTickStart
  | CallNotify 'o
  | CallRequest TokenId
  | CallRecall TokenId

fun call :: "('o, 'd) Hooks \<Rightarrow> 'o reactor_call \<Rightarrow> TeleoReactor \<times> 'd World \<Rightarrow> TeleoReactor \<times> 'd World" where
  "call hooks CallSynchronize s = snd (doSynchronize hooks s)"
| "call hooks CallResume s = doResume hooks s"
| "call hooks (CallHandleInit initialTick) s = doHandleInit hooks initialTick s"
| "call hooks CallHandleTickStart s = doHandleTickStart hooks s"
| "call hooks (CallNotify observation) s = (fst s, TeleoReactor_notify hooks observation (snd s))"
| "call hooks (CallRequest goal) s = (fst s, TeleoReactor_request hooks (fst s) goal (snd s))"
| "call hooks (CallRecall goal) s = (fst s, TeleoReactor_recall hooks (fst s) goal (snd s))"

fun lifetime :: "('o, 'd) Hooks \<Rightarrow> 'o reactor_call list \<Rightarrow> TeleoReactor \<times> 'd World \<Rightarrow> TeleoReactor \<times> 'd World" where
  "lifetime hooks [] s = s"
| "lifetime hooks (c # cs) s = lifetime hooks cs (call hooks c s)"

text \<open>
  The lookup table of factories is a \<open>std::map\<close> from the key of a name to the id of a
  factory. Distinct names have distinct keys, so the table is a map from names. An id is
  \<open>noId\<close> or the id of a factory object.
\<close>

datatype FactoryId = NoId | FactoryId nat

type_synonym FactoryTable = "LabelStr \<Rightarrow> FactoryId option"

text \<open>
  \<open>std::map::insert\<close> adds the pair when the key is absent and leaves the map as it is
  otherwise.
\<close>

definition map_insert :: "FactoryTable \<Rightarrow> LabelStr \<Rightarrow> FactoryId \<Rightarrow> FactoryTable" where
  "map_insert table key v = (if table key = None then table(key \<mapsto> v) else table)"

definition getFactory :: "FactoryTable \<Rightarrow> LabelStr \<Rightarrow> FactoryId" where
  "getFactory lookupTable name =
     (case lookupTable name of Some factory \<Rightarrow> factory | None \<Rightarrow> NoId)"

definition registerFactory :: "FactoryTable \<Rightarrow> LabelStr \<Rightarrow> FactoryId \<Rightarrow> error + FactoryTable" where
  "registerFactory lookupTable name factory =
     (if \<not> getFactory lookupTable name = NoId then Inl (AlreadyRegistered name)
      else Inr (map_insert lookupTable name factory))"

text \<open>
  The constructor of a factory registers the factory under its name with its own id.
\<close>

definition Factory_new :: "FactoryTable \<Rightarrow> LabelStr \<Rightarrow> nat \<Rightarrow> error + FactoryTable" where
  "Factory_new lookupTable name this = registerFactory lookupTable name (FactoryId this)"

text \<open>
  No name of the table is bound to \<open>noId\<close>: true of the empty table, and kept by every
  registration of a factory object.
\<close>

definition factories_only :: "FactoryTable \<Rightarrow> bool" where
  "factories_only lookupTable = (\<forall>name. lookupTable name \<noteq> Some NoId)"

text \<open>
  A library and a world to run the constructors and the calls on.
\<close>

definition example_lib :: XmlLib where
  "example_lib =
     \<lparr>atoi = (\<lambda>s. if s = ''5'' then 5 else if s = ''2'' then 2 else 0),
      string_cast_bool = (\<lambda>d s. d), getFinalTick = 100\<rparr>"

definition example_world :: "unit World" where
  "example_world =
     \<lparr>w_currentTick = 3, w_requestLog = [], w_recallLog = [], w_trexLog = [], w_derived = ()\<rparr>"

section \<open>Domains, observations and their XML form (EuropaXML.cc, Observer.cc)\<close>

text \<open>
  The plan database stores every value of a domain as a \<open>double\<close>: a number, the key of a
  string, or the key of an object. The finite doubles are rational numbers; infinities,
  NaN and the negative zero are not modelled.
\<close>

type_synonym edouble = rat

text \<open>
  \<open>AbstractDomain\<close> belongs to the plan database, outside this repository. A domain is
  what its member functions answer; the functions below ask nothing else of it.
\<close>

record AbstractDomain =
  getTypeName :: LabelStr
  isEntity :: bool
  isNumeric :: bool
  isEmpty :: bool
  isSingleton :: bool
  isEnumerated :: bool
  isInterval :: bool
  getSingletonValue :: edouble
  getValues :: "edouble list"
  getLowerBound :: edouble
  getUpperBound :: edouble

text \<open>
  What the functions take from the plan database and the C++ library: the default type
  names of the Boolean and the integer interval domain, the string of a key, whether a
  key is a string, the name of the object of a key, the two infinities, and the default of the parameter \<open>symbolic\<close> (declared in
  EuropaXML.hh, which is not among the sources).
\<close>

record Europa =
  BoolDomain_getDefaultTypeName :: string
  IntervalIntDomain_getDefaultTypeName :: string
  LabelStr_toString :: "edouble \<Rightarrow> string"
  LabelStr_isString :: "edouble \<Rightarrow> bool"
  Object_getName :: "edouble \<Rightarrow> string"
  PLUS_INFINITY :: edouble
  MINUS_INFINITY :: edouble
  symbolic_default :: bool

text \<open>
  An element of the document tree: its name, its attributes in the order they were
  first set, and its children.
\<close>

datatype TiXmlElement =
  TiXmlElement (Value: string) (Attributes: "(string \<times> string) list") (Children: "TiXmlElement list")

fun set_attribute :: "string \<Rightarrow> string \<Rightarrow> (string \<times> string) list \<Rightarrow> (string \<times> string) list" where
  "set_attribute name v [] = [(name, v)]"
| "set_attribute name v ((k, x) # rest) =
     (if k = name then (k, v) # rest else (k, x) # set_attribute name v rest)"

definition SetAttribute :: "string \<Rightarrow> string \<Rightarrow> TiXmlElement \<Rightarrow> TiXmlElement" where
  "SetAttribute name v elem =
     TiXmlElement (Value elem) (set_attribute name v (Attributes elem)) (Children elem)"

definition LinkEndChild :: "TiXmlElement \<Rightarrow> TiXmlElement \<Rightarrow> TiXmlElement" where
  "LinkEndChild child elem =
     TiXmlElement (Value elem) (Attributes elem) (Children elem @ [child])"

definition is_bool :: "Europa \<Rightarrow> string \<Rightarrow> bool" where
  "is_bool eu typeName \<longleftrightarrow>
     typeName = ''bool'' \<or> typeName = ''BOOL'' \<or> typeName = BoolDomain_getDefaultTypeName eu"

definition is_int :: "Europa \<Rightarrow> string \<Rightarrow> bool" where
  "is_int eu typeName \<longleftrightarrow>
     typeName = ''int'' \<or> typeName = ''INT_INTERVAL'' \<or>
     typeName = IntervalIntDomain_getDefaultTypeName eu"

definition bool_val_to_str :: "edouble \<Rightarrow> string" where
  "bool_val_to_str v = (if v \<noteq> 0 then ''true'' else ''false'')"

text \<open>
  \<open>static_cast<int>(value)\<close> drops the fractional part, and gives that integer when it
  fits an \<open>int\<close>; \<open>in_int_range\<close> says that it fits. For a value beyond the range of
  \<open>int\<close> the language leaves the conversion undefined; the conversion instruction of the
  target machine then yields the smallest \<open>int\<close>, \<open>-2147483648\<close>, and so does the model.
\<close>

definition truncate_double :: "edouble \<Rightarrow> int" where
  "truncate_double v = (if 0 \<le> v then \<lfloor>v\<rfloor> else \<lceil>v\<rceil>)"

definition in_int_range :: "edouble \<Rightarrow> bool" where
  "in_int_range v \<longleftrightarrow> - (2 ^ 31) \<le> truncate_double v \<and> truncate_double v < 2 ^ 31"

definition static_cast_int :: "edouble \<Rightarrow> int" where
  "static_cast_int v = (if in_int_range v then truncate_double v else - (2 ^ 31))"

definition int_val_to_str :: "edouble \<Rightarrow> string" where
  "int_val_to_str v = show_int (static_cast_int v)"

text \<open>
  \<open>double_val_to_str\<close> sets the flag \<open>fixed\<close> of the stream and writes the double. The
  stream keeps its default precision of six, so the text is that of the format
  \<open>%.6f\<close>: a minus sign for a negative value, the digits of the integer part, a point and
  six digits, for the value rounded to the nearest multiple of \<open>10^-6\<close>, a tie going to the
  even one (the default rounding mode).
\<close>

definition round_half_even :: "rat \<Rightarrow> int" where
  "round_half_even x =
     (let f = \<lfloor>x\<rfloor>; r = x - of_int f
      in if r < 1 / 2 then f else if 1 / 2 < r then f + 1 else if even f then f else f + 1)"

fun fixed_digits :: "nat \<Rightarrow> nat \<Rightarrow> string" where
  "fixed_digits 0 n = []"
| "fixed_digits (Suc k) n = fixed_digits k (n div 10) @ [digit_char (n mod 10)]"

definition double_val_to_str :: "edouble \<Rightarrow> string" where
  "double_val_to_str v =
     (let n = nat (round_half_even (\<bar>v\<bar> * 10 ^ 6))
      in (if v < 0 then ''-'' else []) @ show_nat (n div 10 ^ 6) @ ''.''
           @ fixed_digits 6 (n mod 10 ^ 6))"

definition string_val_to_str :: "Europa \<Rightarrow> edouble \<Rightarrow> string" where
  "string_val_to_str eu v = LabelStr_toString eu v"

definition object_val_to_str :: "Europa \<Rightarrow> edouble \<Rightarrow> string" where
  "object_val_to_str eu v = Object_getName eu v"

text \<open>
  One value of a domain as an element, and as text written to the stream. The stream
  \<open>out\<close> is the text written so far; \<open>fprintf\<close> appends.
\<close>

definition domain_val_to_xml :: "Europa \<Rightarrow> AbstractDomain \<Rightarrow> edouble \<Rightarrow> TiXmlElement" where
  "domain_val_to_xml eu domain v =
     (if isEntity domain then
        SetAttribute ''value'' (object_val_to_str eu v) (TiXmlElement ''object'' [] [])
      else if is_bool eu (getTypeName domain) then
        SetAttribute ''name'' (bool_val_to_str v)
          (SetAttribute ''type'' ''bool'' (TiXmlElement ''value'' [] []))
      else if isNumeric domain then
        (if is_int eu (getTypeName domain) then
           SetAttribute ''name'' (int_val_to_str v)
             (SetAttribute ''type'' (getTypeName domain) (TiXmlElement ''value'' [] []))
         else
           SetAttribute ''name'' (double_val_to_str v)
             (SetAttribute ''type'' (getTypeName domain) (TiXmlElement ''value'' [] [])))
      else
        SetAttribute ''value'' (string_val_to_str eu v)
          (SetAttribute ''type'' (getTypeName domain) (TiXmlElement ''symbol'' [] [])))"

definition domain_val_print_xml :: "Europa \<Rightarrow> string \<Rightarrow> AbstractDomain \<Rightarrow> edouble \<Rightarrow> string" where
  "domain_val_print_xml eu out domain v =
     (if isEntity domain then
        out @ ''<object value=\"'' @ object_val_to_str eu v @ ''\" />''
      else if is_bool eu (getTypeName domain) then
        out @ ''<value type=\"bool\" name=\"'' @ bool_val_to_str v @ ''\" />''
      else if isNumeric domain then
        (if is_int eu (getTypeName domain) then
           (out @ ''<value type=\"'' @ getTypeName domain @ ''\" name=\"'')
             @ int_val_to_str v @ ''\" />''
         else
           (out @ ''<value type=\"'' @ getTypeName domain @ ''\" name=\"'')
             @ double_val_to_str v @ ''\" />'')
      else
        out @ ''<symbol type=\"'' @ getTypeName domain @ ''\" value=\"''
          @ string_val_to_str eu v @ ''\" />'')"

definition domain_val_to_str :: "Europa \<Rightarrow> AbstractDomain \<Rightarrow> edouble \<Rightarrow> bool \<Rightarrow> string" where
  "domain_val_to_str eu domain v symbolic =
     (if is_bool eu (getTypeName domain) then bool_val_to_str v
      else if isNumeric domain then
        (if symbolic \<and> PLUS_INFINITY eu = v then ''+inf''
         else if symbolic \<and> MINUS_INFINITY eu = v then ''-inf''
         else if is_int eu (getTypeName domain) then int_val_to_str v
         else double_val_to_str v)
      else if LabelStr_isString eu (getUpperBound domain) then string_val_to_str eu v
      else object_val_to_str eu v)"

definition to_xml :: "Europa \<Rightarrow> AbstractDomain \<Rightarrow> TiXmlElement option" where
  "to_xml eu domain =
     (if \<not> isEmpty domain then
        (if isSingleton domain then Some (domain_val_to_xml eu domain (getSingletonValue domain))
         else if isEnumerated domain then
           Some (foldl (\<lambda>elem v. LinkEndChild (domain_val_to_xml eu domain v) elem)
                   (SetAttribute ''type'' (getTypeName domain) (TiXmlElement ''set'' [] []))
                   (getValues domain))
         else if isInterval domain then
           Some (SetAttribute ''max''
                   (domain_val_to_str eu domain (getUpperBound domain) (symbolic_default eu))
                   (SetAttribute ''min''
                      (domain_val_to_str eu domain (getLowerBound domain) (symbolic_default eu))
                      (SetAttribute ''type'' (getTypeName domain) (TiXmlElement ''interval'' [] []))))
         else None)
      else None)"

text \<open>
  \<open>print_xml\<close> returns the stream after the call and the error of its check, when the
  check fails. Nothing is written before the check.
\<close>

definition print_xml :: "Europa \<Rightarrow> string \<Rightarrow> AbstractDomain \<Rightarrow> string \<times> error option" where
  "print_xml eu out domain =
     (if \<not> (\<not> isEmpty domain) then (out, Some UnknownDomainType)
      else if isSingleton domain then
        (domain_val_print_xml eu out domain (getSingletonValue domain), None)
      else if isEnumerated domain then
        (if getValues domain \<noteq> [] then
           (foldl (\<lambda>out v. domain_val_print_xml eu out domain v)
              (out @ ''<set type=\"'' @ getTypeName domain @ ''\">'') (getValues domain)
             @ ''</set>'', None)
         else (out @ ''<set type=\"'' @ getTypeName domain @ ''\"/>'', None))
      else if isInterval domain then
        (out @ ''<interval type=\"'' @ getTypeName domain @ ''\" min=\"''
           @ domain_val_to_str eu domain (getLowerBound domain) (symbolic_default eu)
           @ ''\" max=\"''
           @ domain_val_to_str eu domain (getUpperBound domain) (symbolic_default eu)
           @ ''\"/>'', None)
      else (out, None))"

text \<open>
  The base class of observations and the observation by value, which owns its
  parameters.
\<close>

record Observation =
  m_parameterCount :: nat
  m_objectName :: LabelStr
  m_predicateName :: LabelStr

record ObservationByValue = Observation +
  m_parameters :: "(LabelStr \<times> AbstractDomain) list"

definition countParameters :: "'a Observation_scheme \<Rightarrow> nat" where
  "countParameters obs = m_parameterCount obs"

definition getObjectName :: "'a Observation_scheme \<Rightarrow> LabelStr" where
  "getObjectName obs = m_objectName obs"

definition getPredicate :: "'a Observation_scheme \<Rightarrow> LabelStr" where
  "getPredicate obs = m_predicateName obs"

definition ObservationByValue_new :: "LabelStr \<Rightarrow> LabelStr \<Rightarrow> ObservationByValue" where
  "ObservationByValue_new objectName predicateName =
     \<lparr>m_parameterCount = 0, m_objectName = objectName, m_predicateName = predicateName,
      m_parameters = []\<rparr>"

definition push_back :: "LabelStr \<Rightarrow> AbstractDomain \<Rightarrow> ObservationByValue \<Rightarrow> ObservationByValue" where
  "push_back name domain obs =
     obs\<lparr>m_parameters := m_parameters obs @ [(name, domain)],
         m_parameterCount := m_parameterCount obs + 1\<rparr>"

text \<open>
  \<open>operator[]\<close> of the observation by value, with its check.
\<close>

definition ObservationByValue_index ::
  "ObservationByValue \<Rightarrow> nat \<Rightarrow> error + (LabelStr \<times> AbstractDomain)" where
  "ObservationByValue_index obs index =
     (if \<not> countParameters obs = length (m_parameters obs)
      then Inl (CountSizeMismatch (countParameters obs) (length (m_parameters obs)))
      else Inr (m_parameters obs ! index))"

text \<open>
  The loop of \<open>printXML\<close> over the parameters. \<open>subscript\<close> is the virtual \<open>operator[]\<close>.
  An error of \<open>operator[]\<close> or of \<open>print_xml\<close> ends the loop with the stream as it is then.
\<close>

function printXML_for ::
  "Europa \<Rightarrow> (nat \<Rightarrow> error + (LabelStr \<times> AbstractDomain)) \<Rightarrow> nat \<Rightarrow> nat \<Rightarrow> string \<Rightarrow>
     string \<times> error option" where
  "printXML_for eu subscript i cnt out =
     (if i < cnt then
        (case subscript i of
           Inl e \<Rightarrow> (out, Some e)
         | Inr nameValuePair \<Rightarrow>
            (case print_xml eu (out @ ''<Assert name=\"'' @ fst nameValuePair @ ''\">'')
                    (snd nameValuePair) of
               (out', Some e) \<Rightarrow> (out', Some e)
             | (out', None) \<Rightarrow> printXML_for eu subscript (i + 1) cnt (out' @ ''</Assert>'')))
      else (out, None))"
  by pat_completeness auto

termination
  by (relation "measure (\<lambda>(eu, subscript, i, cnt, out). cnt - i)") auto

declare printXML_for.simps [simp del]

definition printXML ::
  "Europa \<Rightarrow> (nat \<Rightarrow> error + (LabelStr \<times> AbstractDomain)) \<Rightarrow> 'a Observation_scheme \<Rightarrow> string \<Rightarrow>
     string \<times> error option" where
  "printXML eu subscript obs out =
     (if countParameters obs = 0 then
        (out @ ''<Observation on=\"'' @ getObjectName obs @ ''\" predicate=\"''
           @ getPredicate obs @ ''\" />'', None)
      else
        (case printXML_for eu subscript 0 (countParameters obs)
                (out @ ''<Observation on=\"'' @ getObjectName obs @ ''\" predicate=\"''
                   @ getPredicate obs @ ''\">'') of
           (out', Some e) \<Rightarrow> (out', Some e)
         | (out', None) \<Rightarrow> (out' @ ''</Observation>'', None)))"

definition ObservationByValue_printXML ::
  "Europa \<Rightarrow> ObservationByValue \<Rightarrow> string \<Rightarrow> string \<times> error option" where
  "ObservationByValue_printXML eu obs out = printXML eu (ObservationByValue_index obs) obs out"

text \<open>
What \<open>print_xml\<close> writes for a domain that passes its check.
\<close>

definition xml_text :: "Europa \<Rightarrow> AbstractDomain \<Rightarrow> string" where
  "xml_text eu domain = fst (print_xml eu [] domain)"

definition value_text :: "Europa \<Rightarrow> AbstractDomain \<Rightarrow> edouble \<Rightarrow> string" where
  "value_text eu domain v = domain_val_print_xml eu [] domain v"

definition assert_text :: "Europa \<Rightarrow> LabelStr \<times> AbstractDomain \<Rightarrow> string" where
  "assert_text eu nameValuePair =
     ''<Assert name=\"'' @ fst nameValuePair @ ''\">'' @ xml_text eu (snd nameValuePair)
       @ ''</Assert>''"



text \<open>
  Example collaborators and domains.
\<close>

definition example_europa :: Europa where
  "example_europa =
     \<lparr>BoolDomain_getDefaultTypeName = ''bool'',
      IntervalIntDomain_getDefaultTypeName = ''int'',
      LabelStr_toString = (\<lambda>v. if v = 1 then ''red'' else if v = 2 then ''blue'' else ''green''),
      LabelStr_isString = (\<lambda>v. True),
      Object_getName = (\<lambda>v. ''rover''),
      PLUS_INFINITY = 268435455,
      MINUS_INFINITY = - 268435455,
      symbolic_default = False\<rparr>"

definition bool_true :: AbstractDomain where
  "bool_true =
     \<lparr>getTypeName = ''bool'', isEntity = False, isNumeric = True, isEmpty = False,
      isSingleton = True, isEnumerated = False, isInterval = True,
      getSingletonValue = 1, getValues = [1], getLowerBound = 1, getUpperBound = 1\<rparr>"

definition int_42 :: AbstractDomain where
  "int_42 =
     \<lparr>getTypeName = ''int'', isEntity = False, isNumeric = True, isEmpty = False,
      isSingleton = True, isEnumerated = False, isInterval = True,
      getSingletonValue = 42, getValues = [42], getLowerBound = 42, getUpperBound = 42\<rparr>"





definition empty_interval :: AbstractDomain where
  "empty_interval =
     \<lparr>getTypeName = ''int'', isEntity = False, isNumeric = True, isEmpty = True,
      isSingleton = False, isEnumerated = False, isInterval = True,
      getSingletonValue = 0, getValues = [], getLowerBound = 1, getUpperBound = 0\<rparr>"

definition empty_Color :: AbstractDomain where
  "empty_Color =
     \<lparr>getTypeName = ''Color'', isEntity = False, isNumeric = False, isEmpty = True,
      isSingleton = False, isEnumerated = True, isInterval = False,
      getSingletonValue = 0, getValues = [], getLowerBound = 0, getUpperBound = 0\<rparr>"

definition two_Colors :: AbstractDomain where
  "two_Colors =
     \<lparr>getTypeName = ''Color'', isEntity = False, isNumeric = False, isEmpty = False,
      isSingleton = False, isEnumerated = True, isInterval = False,
      getSingletonValue = 0, getValues = [1, 2], getLowerBound = 1, getUpperBound = 2\<rparr>"

definition unlisted_Colors :: AbstractDomain where
  "unlisted_Colors =
     \<lparr>getTypeName = ''Color'', isEntity = False, isNumeric = False, isEmpty = False,
      isSingleton = False, isEnumerated = True, isInterval = False,
      getSingletonValue = 0, getValues = [], getLowerBound = 0, getUpperBound = 0\<rparr>"

text \<open>
  An observation with three parameters, the second of which has an empty domain.
\<close>

definition observation_with_empty_domain :: ObservationByValue where
  "observation_with_empty_domain =
     push_back ''ok'' bool_true
       (push_back ''c'' empty_Color (push_back ''x'' int_42 (ObservationByValue_new ''nav'' ''At'')))"

definition example_observation :: ObservationByValue where
  "example_observation =
     push_back ''ok'' bool_true (push_back ''x'' int_42 (ObservationByValue_new ''nav'' ''At''))"

section \<open>Properties of the step clock\<close>

lemma clock_inv_new: "0 < k \<Longrightarrow> clock_inv (PseudoClock_new s k)"
  by (simp add: clock_inv_def PseudoClock_new_def)

lemma div_Suc_step:
  fixes j k :: nat
  assumes "0 < k"
  shows "Suc j div k = (if Suc j mod k = 0 then j div k + 1 else j div k)"
  using assms by (simp add: div_Suc)

lemma getNextTick_inv:
  assumes "clock_inv c"
  shows "fst (getNextTick c) = m_internalTicks c div m_stepsPerTick c"
    and "clock_inv (snd (getNextTick c))"
    and "m_internalTicks (snd (getNextTick c)) = Suc (m_internalTicks c)"
    and "m_stepsPerTick (snd (getNextTick c)) = m_stepsPerTick c"
  using assms div_Suc_step [of "m_stepsPerTick c" "m_internalTicks c"]
  by (simp_all add: clock_inv_def getNextTick_def Let_def)

lemma poll_from:
  "clock_inv c \<Longrightarrow>
     poll n c = map (\<lambda>i. (m_internalTicks c + i) div m_stepsPerTick c) [0..<n]"
proof (induction n arbitrary: c)
  case 0
  show ?case by simp
next
  case (Suc n)
  obtain t c' where g: "getNextTick c = (t, c')" by (cases "getNextTick c")
  from getNextTick_inv [OF Suc.prems] g
  have t: "t = m_internalTicks c div m_stepsPerTick c"
    and inv': "clock_inv c'"
    and cnt: "m_internalTicks c' = Suc (m_internalTicks c)"
    and k: "m_stepsPerTick c' = m_stepsPerTick c"
    by simp_all
  have "poll n c' = map (\<lambda>i. (m_internalTicks c' + i) div m_stepsPerTick c') [0..<n]"
    by (rule Suc.IH [OF inv'])
  then have tl: "poll n c' = map (\<lambda>i. (m_internalTicks c + Suc i) div m_stepsPerTick c) [0..<n]"
    by (simp add: cnt k)
  have "[0..<Suc n] = 0 # map Suc [0..<n]"
    by (simp add: upt_conv_Cons map_Suc_upt del: upt_Suc)
  then have "map (\<lambda>i. (m_internalTicks c + i) div m_stepsPerTick c) [0..<Suc n]
      = t # map (\<lambda>i. (m_internalTicks c + Suc i) div m_stepsPerTick c) [0..<n]"
    by (simp add: t comp_def del: upt_Suc)
  with g tl show ?case by simp
qed

text \<open>
  C4. For the step clock built with \<open>steps_per_tick = k \<ge> 1\<close>, whatever the sleep time
  (the wall-clock parameter) is, the ticks returned by \<open>n\<close> successive polls are
  \<open>\<lfloor>0 / k\<rfloor>, \<lfloor>1 / k\<rfloor>, \<dots>, \<lfloor>(n - 1) / k\<rfloor>\<close>: the \<open>i\<close>-th call, counted from 1, returns
  \<open>\<lfloor>(i - 1) / k\<rfloor>\<close>. With \<open>k = 3\<close> twelve polls give 0,0,0,1,1,1,2,2,2,3,3,3 and with
  \<open>k = 2\<close> six polls give 0,0,1,1,2,2.
\<close>

theorem PseudoClock_tick_sequence:
  "(1 \<le> k \<longrightarrow> poll n (PseudoClock_new sleepSeconds k) = map (\<lambda>j. j div k) [0..<n])
   \<and> poll 12 (PseudoClock_new sleepSeconds 3) = [0, 0, 0, 1, 1, 1, 2, 2, 2, 3, 3, 3]
   \<and> poll 6 (PseudoClock_new sleepSeconds 2) = [0, 0, 1, 1, 2, 2]"
proof -
  have gen: "poll m (PseudoClock_new sleepSeconds j) = map (\<lambda>i. i div j) [0..<m]"
    if "1 \<le> j" for m j
  proof -
    from that have "clock_inv (PseudoClock_new sleepSeconds j)"
      by (simp add: clock_inv_new)
    from poll_from [OF this] show ?thesis
      by (simp add: PseudoClock_new_def)
  qed
  have "poll 12 (PseudoClock_new sleepSeconds 3) = map (\<lambda>i. i div 3) [0..<12]"
    by (rule gen) simp
  moreover have "map (\<lambda>i. i div 3) [0..<12] = [0, 0, 0, 1, 1, 1, 2, 2, 2, 3, 3, 3::nat]"
    by code_simp
  moreover have "poll 6 (PseudoClock_new sleepSeconds 2) = map (\<lambda>i. i div 2) [0..<6]"
    by (rule gen) simp
  moreover have "map (\<lambda>i. i div 2) [0..<6] = [0, 0, 1, 1, 2, 2::nat]"
    by code_simp
  ultimately show ?thesis using gen by simp
qed

theorem PseudoClock_tick_sequence_witness:
  "(1::nat) \<le> 3 \<and> poll 5 (PseudoClock_new (1 / 2) 3) = [0, 0, 0, 1, 1]"
proof -
  have "map (\<lambda>j. j div 3) [0..<5] = [0, 0, 0, 1, 1::nat]"
    by code_simp
  with PseudoClock_tick_sequence [of 3 5 "1 / 2"] show ?thesis by simp
qed

section \<open>Properties of the reactor priorities and of the sort\<close>

subsection \<open>Priorities on an acyclic graph, and on a cycle\<close>

lemma dependency_bound: "(r, s) \<in> dependency ag \<Longrightarrow> r < getReactorCount ag \<and> s < getReactorCount ag"
  by (simp add: dependency_def)

lemma dependents_bound:
  assumes "r < getReactorCount ag"
  shows "dependents ag r \<subseteq> {..<getReactorCount ag}"
proof
  fix y assume "y \<in> dependents ag r"
  then have "(y, r) \<in> (dependency ag)\<^sup>*" by (simp add: dependents_def)
  then show "y \<in> {..<getReactorCount ag}"
  proof (cases rule: converse_rtranclE)
    case base
    with assms show ?thesis by simp
  next
    case (step z)
    then show ?thesis using dependency_bound by blast
  qed
qed

lemma finite_dependents: "r < getReactorCount ag \<Longrightarrow> finite (dependents ag r)"
  using dependents_bound finite_subset by blast

lemma card_dependents_le:
  "r < getReactorCount ag \<Longrightarrow> card (dependents ag r) \<le> getReactorCount ag"
  using subset_eq_atLeast0_lessThan_card dependents_bound
  by (metis atLeast0LessThan)

lemma card_dependents_step:
  assumes ac: "acyclic (dependency ag)" and e: "(r, s) \<in> dependency ag"
  shows "card (dependents ag r) < card (dependents ag s)"
proof -
  have s: "s < getReactorCount ag" using e dependency_bound by blast
  have sub: "dependents ag r \<subseteq> dependents ag s"
    using e by (auto simp: dependents_def intro: rtrancl_into_rtrancl)
  have "s \<in> dependents ag s" by (simp add: dependents_def)
  moreover have "s \<notin> dependents ag r"
  proof
    assume "s \<in> dependents ag r"
    then have "(s, r) \<in> (dependency ag)\<^sup>*" by (simp add: dependents_def)
    from this e have "(s, s) \<in> (dependency ag)\<^sup>+" by (rule rtrancl_into_trancl1)
    with ac show False by (simp add: acyclic_def)
  qed
  ultimately have "dependents ag r \<subset> dependents ag s" using sub by blast
  then show ?thesis using finite_dependents [OF s] by (rule psubset_card_mono [rotated])
qed

lemma finite_dependency: "finite (dependency ag)"
proof -
  have "dependency ag \<subseteq> {..<getReactorCount ag} \<times> {..<getReactorCount ag}"
    by (auto simp: dependency_def)
  then show ?thesis by (rule finite_subset) simp
qed

lemma getPriority_loop_eval:
  assumes "\<forall>t \<in> set ts. \<exists>s. getOwner ag t = Some s \<and> s < getReactorCount ag \<and>
             getPriority ag s (Suc c) = Inr (f t)"
  shows "getPriority_loop ag ts c acc = Inr (Max (insert acc (f ` set ts)))"
  using assms
proof (induction ts arbitrary: acc)
  case Nil
  show ?case by (simp add: getPriority.simps)
next
  case (Cons t ts)
  from Cons.prems obtain s where s: "getOwner ag t = Some s" "s < getReactorCount ag"
    "getPriority ag s (Suc c) = Inr (f t)" by auto
  have "getPriority_loop ag (t # ts) c acc = getPriority_loop ag ts c (max acc (f t))"
    using s by (simp add: getPriority.simps)
  also have "\<dots> = Inr (Max (insert (max acc (f t)) (f ` set ts)))"
    using Cons.prems by (intro Cons.IH) simp
  also have "Max (insert (max acc (f t)) (f ` set ts)) = Max (insert acc (f ` set (t # ts)))"
  proof -
    have "Max (insert acc (insert (f t) (f ` set ts))) = max acc (Max (insert (f t) (f ` set ts)))"
      by (rule Max_insert) simp_all
    also have "\<dots> = max acc (max (f t) (Max (insert (f t) (f ` set ts))))"
      by (simp add: max_def)
    finally show ?thesis
      by (cases "set ts = {}") (auto simp: max.assoc)
  qed
  finally show ?case .
qed

lemma getPriority_acyclic:
  assumes ac: "acyclic (dependency ag)" and ov: "owners_valid ag"
  shows "r < getReactorCount ag \<Longrightarrow>
           (\<forall>c < card (dependents ag r). getPriority ag r c = Inr (priorityOf ag r)) \<and>
           0 \<le> priorityOf ag r \<and>
           priorityOf ag r =
             (if externals ag r = [] then 0
              else 1 + Max ((\<lambda>t. priorityOf ag (the (getOwner ag t))) ` set (externals ag r)))"
proof -
  have wf: "wf ((dependency ag)\<inverse>)"
    using finite_dependency ac by (rule finite_acyclic_wf_converse)
  show "r < getReactorCount ag \<Longrightarrow> ?thesis" using wf
  proof (induction r rule: wf_induct_rule)
    case (less r)
    let ?f = "\<lambda>t. priorityOf ag (the (getOwner ag t))"
    let ?ts = "externals ag r"
    have rn: "r < getReactorCount ag" by fact
    have pos: "0 < card (dependents ag r)"
    proof -
      have "r \<in> dependents ag r" by (simp add: dependents_def)
      then show ?thesis using finite_dependents [OF rn] by (auto simp: card_gt_0_iff)
    qed
    have owner: "\<exists>s. getOwner ag t = Some s \<and> s < getReactorCount ag \<and> (r, s) \<in> dependency ag"
      if "t \<in> set ?ts" for t
    proof -
      from ov rn that obtain s where "getOwner ag t = Some s" "s < getReactorCount ag"
        unfolding owners_valid_def by blast
      with rn that show ?thesis by (auto simp: dependency_def)
    qed
    have val: "getPriority ag r c =
        Inr (if ?ts = [] then 0 else 1 + Max (insert 0 (?f ` set ?ts)))"
      if c: "c < card (dependents ag r)" for c
    proof -
      have cn: "c < getReactorCount ag"
        using c card_dependents_le [OF rn] by simp
      have "\<forall>t \<in> set ?ts. \<exists>s. getOwner ag t = Some s \<and> s < getReactorCount ag \<and>
               getPriority ag s (Suc c) = Inr (?f t)"
      proof
        fix t assume "t \<in> set ?ts"
        from owner [OF this] obtain s where s: "getOwner ag t = Some s"
          "s < getReactorCount ag" "(r, s) \<in> dependency ag" by blast
        have "Suc c < card (dependents ag s)"
          using card_dependents_step [OF ac s(3)] c by simp
        moreover have "\<forall>c < card (dependents ag s). getPriority ag s c = Inr (priorityOf ag s)"
          using less.IH [of s] s by simp
        ultimately show "\<exists>s. getOwner ag t = Some s \<and> s < getReactorCount ag \<and>
               getPriority ag s (Suc c) = Inr (?f t)"
          using s by simp
      qed
      from getPriority_loop_eval [OF this]
      have "getPriority_loop ag ?ts c 0 = Inr (Max (insert 0 (?f ` set ?ts)))" .
      then show ?thesis using cn by (simp add: getPriority.simps(1))
    qed
    have p0: "priorityOf ag r = (if ?ts = [] then 0 else 1 + Max (insert 0 (?f ` set ?ts)))"
      using val [OF pos] by (simp add: priorityOf_def)
    have nonneg: "0 \<le> Max (insert 0 (?f ` set ?ts))"
      by (rule Max_ge) simp_all
    have fpos: "0 \<le> ?f t" if "t \<in> set ?ts" for t
    proof -
      from owner [OF that] obtain s where s: "getOwner ag t = Some s"
          "s < getReactorCount ag" "(r, s) \<in> dependency ag" by blast
      then show ?thesis using less.IH [of s] by simp
    qed
    have mx: "Max (insert 0 (?f ` set ?ts)) = Max (?f ` set ?ts)" if "?ts \<noteq> []"
    proof -
      from that obtain t where t: "t \<in> set ?ts" by (cases ?ts) auto
      have "Max (insert 0 (?f ` set ?ts)) = max 0 (Max (?f ` set ?ts))"
        using that by (intro Max_insert) simp_all
      moreover have "?f t \<le> Max (?f ` set ?ts)" using t by (intro Max_ge) simp_all
      ultimately show ?thesis using fpos [OF t] by simp
    qed
    show ?case
      using val p0 nonneg mx by (auto simp: p0)
  qed
qed

lemma getPriority_acyclic_0:
  assumes "acyclic (dependency ag)" "owners_valid ag" "r < getReactorCount ag"
  shows "getPriority ag r 0 = Inr (priorityOf ag r)"
proof -
  have "r \<in> dependents ag r" by (simp add: dependents_def)
  then have "0 < card (dependents ag r)"
    using finite_dependents [OF assms(3)] by (auto simp: card_gt_0_iff)
  then show ?thesis using getPriority_acyclic [OF assms] by simp
qed

lemma priorityOf_edge:
  assumes ac: "acyclic (dependency ag)" and ov: "owners_valid ag"
    and e: "(r, s) \<in> dependency ag"
  shows "priorityOf ag s < priorityOf ag r"
proof -
  from e obtain t where rn: "r < getReactorCount ag" and t: "t \<in> set (externals ag r)"
    and o: "getOwner ag t = Some s"
    by (auto simp: dependency_def)
  let ?f = "\<lambda>t. priorityOf ag (the (getOwner ag t))"
  have ne: "externals ag r \<noteq> []" using t by auto
  have "?f t \<le> Max (?f ` set (externals ag r))" using t by (intro Max_ge) simp_all
  moreover have "priorityOf ag r = 1 + Max (?f ` set (externals ag r))"
    using getPriority_acyclic [OF ac ov rn] ne by simp
  ultimately show ?thesis using o by simp
qed

lemma reaches_cycle_step:
  assumes "reaches_cycle ag r"
  shows "\<exists>s. (r, s) \<in> dependency ag \<and> reaches_cycle ag s"
proof -
  from assms obtain c where rc: "(r, c) \<in> (dependency ag)\<^sup>*" and cc: "(c, c) \<in> (dependency ag)\<^sup>+"
    by (auto simp: reaches_cycle_def)
  from rc show ?thesis
  proof (cases rule: converse_rtranclE)
    case base
    from cc obtain s where "(c, s) \<in> dependency ag" "(s, c) \<in> (dependency ag)\<^sup>*"
      by (auto dest: tranclD)
    then show ?thesis using base cc by (auto simp: reaches_cycle_def)
  next
    case (step s)
    then show ?thesis using cc by (auto simp: reaches_cycle_def)
  qed
qed

lemma getPriority_errors:
  "owners_valid ag \<Longrightarrow> r < getReactorCount ag \<Longrightarrow> getPriority ag r c = Inl e \<Longrightarrow>
     e = CycleDetected"
  "owners_valid ag \<Longrightarrow>
     (\<forall>t \<in> set ts. \<exists>s. getOwner ag t = Some s \<and> s < getReactorCount ag) \<Longrightarrow>
     getPriority_loop ag ts c acc = Inl e \<Longrightarrow> e = CycleDetected"
proof (induction ag r c and ag ts c acc rule: getPriority_getPriority_loop.induct)
  case (1 ag r callCount)
  have owned: "\<forall>t \<in> set (externals ag r). \<exists>s. getOwner ag t = Some s \<and> s < getReactorCount ag"
    using "1.prems"(1,2) unfolding owners_valid_def by blast
  show ?case
  proof (cases "callCount < getReactorCount ag \<and> externals ag r \<noteq> []")
    case True
    with "1.prems"(3) have "getPriority_loop ag (externals ag r) callCount 0 = Inl e"
      by (simp add: getPriority.simps(1) split: sum.splits)
    with "1.IH" True "1.prems"(1) owned show ?thesis by blast
  next
    case False
    with "1.prems"(3) show ?thesis
      by (auto simp: getPriority.simps(1) split: if_splits)
  qed
next
  case (2 ag callCount priority)
  then show ?case by (simp add: getPriority.simps)
next
  case (3 ag timeline rest callCount priority)
  from "3.prems"(2) obtain s where s: "getOwner ag timeline = Some s" "s < getReactorCount ag"
    and rest: "\<forall>t \<in> set rest. \<exists>s. getOwner ag t = Some s \<and> s < getReactorCount ag"
    by auto
  show ?case
  proof (cases "getPriority ag s (callCount + 1)")
    case (Inl e')
    with "3.prems"(3) s have "e = e'" by (simp add: getPriority.simps)
    with "3.IH"(1) [OF s(1) _ "3.prems"(1) s(2)] s Inl show ?thesis by simp
  next
    case (Inr p)
    with "3.prems"(3) s have "getPriority_loop ag rest callCount (max priority p) = Inl e"
      by (simp add: getPriority.simps)
    with "3.IH"(2) [OF s(1) _ Inr "3.prems"(1) rest] s show ?thesis by simp
  qed
qed

lemma getPriority_cycle:
  "owners_valid ag \<Longrightarrow> reaches_cycle ag r \<Longrightarrow> getPriority ag r c = Inl CycleDetected"
  "owners_valid ag \<Longrightarrow>
     (\<forall>t \<in> set ts. \<exists>s. getOwner ag t = Some s \<and> s < getReactorCount ag) \<Longrightarrow>
     (\<exists>t \<in> set ts. \<exists>s. getOwner ag t = Some s \<and> reaches_cycle ag s) \<Longrightarrow>
     getPriority_loop ag ts c acc = Inl CycleDetected"
proof (induction ag r c and ag ts c acc rule: getPriority_getPriority_loop.induct)
  case (1 ag r callCount)
  from reaches_cycle_step [OF "1.prems"(2)] obtain s
    where e: "(r, s) \<in> dependency ag" and s: "reaches_cycle ag s" by blast
  from e obtain t where rn: "r < getReactorCount ag" and t: "t \<in> set (externals ag r)"
    and o: "getOwner ag t = Some s"
    by (auto simp: dependency_def)
  have owned: "\<forall>t \<in> set (externals ag r). \<exists>s. getOwner ag t = Some s \<and> s < getReactorCount ag"
    using "1.prems"(1) rn unfolding owners_valid_def by blast
  have ne: "externals ag r \<noteq> []" using t by auto
  show ?case
  proof (cases "callCount < getReactorCount ag")
    case True
    have "getPriority_loop ag (externals ag r) callCount 0 = Inl CycleDetected"
      using "1.IH" True ne "1.prems"(1) owned t o s by blast
    then show ?thesis using True ne by (simp add: getPriority.simps(1))
  next
    case False
    then show ?thesis by (simp add: getPriority.simps(1))
  qed
next
  case (2 ag callCount priority)
  then show ?case by simp
next
  case (3 ag timeline rest callCount priority)
  from "3.prems"(2) obtain s where s: "getOwner ag timeline = Some s" "s < getReactorCount ag"
    and rest: "\<forall>t \<in> set rest. \<exists>s. getOwner ag t = Some s \<and> s < getReactorCount ag"
    by auto
  show ?case
  proof (cases "getPriority ag s (callCount + 1)")
    case (Inl e')
    with getPriority_errors(1) [OF "3.prems"(1) s(2)] have "e' = CycleDetected" by blast
    with Inl s show ?thesis by (simp add: getPriority.simps)
  next
    case (Inr p)
    have "\<not> reaches_cycle ag s"
    proof
      assume "reaches_cycle ag s"
      with "3.IH"(1) [OF s(1) _ "3.prems"(1)] s(2) Inr show False by simp
    qed
    with "3.prems"(3) s have "\<exists>t \<in> set rest. \<exists>s. getOwner ag t = Some s \<and> reaches_cycle ag s"
      by auto
    with "3.IH"(2) [OF s(1) _ Inr "3.prems"(1) rest] s
    have "getPriority_loop ag rest callCount (max priority p) = Inl CycleDetected" by simp
    with Inr s show ?thesis by (simp add: getPriority.simps)
  qed
qed

lemma getPriority_guard:
  "\<not> c < getReactorCount ag \<Longrightarrow> getPriority ag r c = Inl CycleDetected"
  by (simp add: getPriority.simps(1))

lemma getPriority_cycle_from_below:
  assumes "getPriority ag r c = Inl CycleDetected" "c < getReactorCount ag"
  shows "\<exists>t \<in> set (externals ag r). \<exists>s. getOwner ag t = Some s \<and> s < getReactorCount ag \<and>
           getPriority ag s (c + 1) = Inl CycleDetected"
proof -
  have loop: "getPriority_loop ag ts c acc = Inl CycleDetected \<Longrightarrow>
      \<exists>t \<in> set ts. \<exists>s. getOwner ag t = Some s \<and> s < getReactorCount ag \<and>
           getPriority ag s (c + 1) = Inl CycleDetected" for ts acc
  proof (induction ts arbitrary: acc)
    case Nil
    then show ?case by (simp add: getPriority_loop.simps)
  next
    case (Cons t ts)
    show ?case
    proof (cases "getOwner ag t")
      case None
      with Cons.prems show ?thesis by (simp add: getPriority_loop.simps)
    next
      case (Some s)
      show ?thesis
      proof (cases "s < getReactorCount ag")
        case False
        with Some Cons.prems show ?thesis by (simp add: getPriority_loop.simps)
      next
        case True
        show ?thesis
        proof (cases "getPriority ag s (c + 1)")
          case (Inl e')
          with Some True Cons.prems have "e' = CycleDetected"
            by (simp add: getPriority_loop.simps)
          with Inl Some True show ?thesis by simp
        next
          case (Inr p)
          with Some True Cons.prems
          have "getPriority_loop ag ts c (max acc p) = Inl CycleDetected"
            by (simp add: getPriority_loop.simps)
          from Cons.IH [OF this] show ?thesis by auto
        qed
      qed
    qed
  qed
  from assms have "getPriority_loop ag (externals ag r) c 0 = Inl CycleDetected"
    by (auto simp: getPriority.simps(1) split: if_splits sum.splits)
  from loop [OF this] show ?thesis .
qed

lemma chain_agent_count: "getReactorCount chain_agent = 3"
  by (simp add: getReactorCount_def chain_agent_def)

lemma chain_agent_externals:
  "externals chain_agent 0 = []" "externals chain_agent (Suc 0) = [''clock'']"
  "externals chain_agent 2 = [''nav'', ''clock'']"
  by (simp_all add: externals_def chain_agent_def)

lemma chain_agent_internals:
  "internals chain_agent 0 = [''clock'']" "internals chain_agent (Suc 0) = [''nav'']"
  "internals chain_agent 2 = [''out'']"
  by (simp_all add: internals_def chain_agent_def)

lemma chain_agent_owner:
  "getOwner chain_agent ''clock'' = Some 0" "getOwner chain_agent ''nav'' = Some (Suc 0)"
  "getOwner chain_agent ''out'' = Some 2"
  by (simp_all add: getOwner_def chain_agent_def)

lemma less_3_cases: "(r::nat) < 3 \<Longrightarrow> r = 0 \<or> r = 1 \<or> r = 2"
  by arith

lemma chain_agent_owners_valid: "owners_valid chain_agent"
  unfolding owners_valid_def chain_agent_count
  by (auto dest!: less_3_cases simp: chain_agent_externals chain_agent_owner)

lemma chain_agent_owners_of_internals: "owners_of_internals chain_agent"
  unfolding owners_of_internals_def chain_agent_count
  by (auto dest!: less_3_cases simp: chain_agent_internals chain_agent_owner)

lemma chain_agent_acyclic: "acyclic (dependency chain_agent)"
proof (rule acyclicI_order [where f = id])
  fix a b assume "(a, b) \<in> dependency chain_agent"
  then show "id b < id a"
    unfolding dependency_def chain_agent_count
    by (auto dest!: less_3_cases simp: chain_agent_externals chain_agent_owner)
qed

lemma chain_agent_priorities:
  "getPriority chain_agent 0 0 = Inr 0" "getPriority chain_agent (Suc 0) 0 = Inr 1"
  "getPriority chain_agent 2 0 = Inr 2"
  by (simp_all add: getPriority.simps chain_agent_count chain_agent_externals chain_agent_owner)

lemma cycle_agent_count: "getReactorCount cycle_agent = 2"
  by (simp add: getReactorCount_def cycle_agent_def)

lemma cycle_agent_externals:
  "externals cycle_agent 0 = [''y_tl'']" "externals cycle_agent (Suc 0) = [''x_tl'']"
  by (simp_all add: externals_def cycle_agent_def)

lemma cycle_agent_owner:
  "getOwner cycle_agent ''x_tl'' = Some 0" "getOwner cycle_agent ''y_tl'' = Some (Suc 0)"
  by (simp_all add: getOwner_def cycle_agent_def)

lemma less_2_cases_nat: "(r::nat) < 2 \<Longrightarrow> r = 0 \<or> r = Suc 0"
  by arith

lemma cycle_agent_owners_valid: "owners_valid cycle_agent"
  unfolding owners_valid_def cycle_agent_count
  by (auto dest!: less_2_cases_nat simp: cycle_agent_externals cycle_agent_owner)

lemma cycle_agent_reaches_cycle: "reaches_cycle cycle_agent 0"
proof -
  have "(0, Suc 0) \<in> dependency cycle_agent" "(Suc 0, 0) \<in> dependency cycle_agent"
    by (simp_all add: dependency_def cycle_agent_count cycle_agent_externals cycle_agent_owner)
  then have "(0, 0) \<in> (dependency cycle_agent)\<^sup>+" by (rule trancl_into_trancl2 [OF _ r_into_trancl])
  then show ?thesis unfolding reaches_cycle_def by blast
qed

text \<open>
  C2. For a reactor \<open>R\<close> of an agent whose external timelines all have valid owners:
  when the dependency graph is acyclic, \<open>getPriority()\<close> returns a value for \<open>R\<close> and for the
  owner of each of its external timelines, and the value for \<open>R\<close> is 0 when \<open>R\<close> has no
  external timeline and 1 plus the maximum, over the external timelines \<open>t\<close> of \<open>R\<close>, of
  the priority of the owner of \<open>t\<close> otherwise; when the dependency edges lead from \<open>R\<close>
  into a cycle, \<open>getPriority()\<close> fails with \<open>CycleDetected\<close> instead of returning a value,
  so that on a graph with a cycle \<open>getPriority()\<close> fails so for some reactor of the agent.
  That error is the one of the depth guard: a call whose depth \<open>callCount\<close> has reached
  the reactor count fails with it, and a call below that depth fails with it only when
  a nested call, one level deeper, on the owner of an external timeline did.
\<close>

theorem getPriority_spec:
  assumes "owners_valid ag" "r < getReactorCount ag"
  shows "(acyclic (dependency ag) \<longrightarrow>
            (\<forall>t \<in> set (externals ag r).
               \<exists>s. getOwner ag t = Some s \<and> getPriority ag s 0 = Inr (priorityOf ag s)) \<and>
            getPriority ag r 0 =
              Inr (if externals ag r = [] then 0
                   else 1 + Max ((\<lambda>t. priorityOf ag (the (getOwner ag t))) ` set (externals ag r))))
       \<and> (reaches_cycle ag r \<longrightarrow> getPriority ag r 0 = Inl CycleDetected)
       \<and> (\<not> acyclic (dependency ag) \<longrightarrow>
              (\<exists>q. q < getReactorCount ag \<and> getPriority ag q 0 = Inl CycleDetected))
       \<and> (\<forall>c. \<not> c < getReactorCount ag \<longrightarrow> getPriority ag r c = Inl CycleDetected)
       \<and> (\<forall>c. c < getReactorCount ag \<and> getPriority ag r c = Inl CycleDetected \<longrightarrow>
              (\<exists>t \<in> set (externals ag r). \<exists>s. getOwner ag t = Some s \<and>
                 getPriority ag s (c + 1) = Inl CycleDetected))"
proof (intro conjI impI allI)
  assume ac: "acyclic (dependency ag)"
  show "\<forall>t \<in> set (externals ag r).
           \<exists>s. getOwner ag t = Some s \<and> getPriority ag s 0 = Inr (priorityOf ag s)"
  proof
    fix t assume "t \<in> set (externals ag r)"
    with assms obtain s where "getOwner ag t = Some s" "s < getReactorCount ag"
      unfolding owners_valid_def by blast
    then show "\<exists>s. getOwner ag t = Some s \<and> getPriority ag s 0 = Inr (priorityOf ag s)"
      using getPriority_acyclic_0 [OF ac assms(1)] by simp
  qed
  show "getPriority ag r 0 =
      Inr (if externals ag r = [] then 0
           else 1 + Max ((\<lambda>t. priorityOf ag (the (getOwner ag t))) ` set (externals ag r)))"
    using getPriority_acyclic_0 [OF ac assms] getPriority_acyclic [OF ac assms] by simp
next
  assume "reaches_cycle ag r"
  then show "getPriority ag r 0 = Inl CycleDetected"
    using getPriority_cycle(1) assms(1) by blast
next
  assume "\<not> acyclic (dependency ag)"
  then obtain q where q: "(q, q) \<in> (dependency ag)\<^sup>+"
    by (auto simp: acyclic_def)
  then have "reaches_cycle ag q" by (auto simp: reaches_cycle_def)
  then have "getPriority ag q 0 = Inl CycleDetected"
    using getPriority_cycle(1) assms(1) by blast
  moreover from q obtain z where "(q, z) \<in> dependency ag" by (auto dest: tranclD)
  then have "q < getReactorCount ag" using dependency_bound by blast
  ultimately show "\<exists>q. q < getReactorCount ag \<and> getPriority ag q 0 = Inl CycleDetected"
    by blast
next
  fix c assume "\<not> c < getReactorCount ag"
  then show "getPriority ag r c = Inl CycleDetected" by (rule getPriority_guard)
next
  fix c assume "c < getReactorCount ag \<and> getPriority ag r c = Inl CycleDetected"
  then show "\<exists>t \<in> set (externals ag r). \<exists>s. getOwner ag t = Some s \<and>
                 getPriority ag s (c + 1) = Inl CycleDetected"
    using getPriority_cycle_from_below by blast
qed

theorem getPriority_spec_witness:
  "owners_valid chain_agent \<and> 2 < getReactorCount chain_agent \<and>
   acyclic (dependency chain_agent) \<and>
   getPriority chain_agent 0 0 = Inr 0 \<and> getPriority chain_agent 2 0 = Inr 2 \<and>
   owners_valid cycle_agent \<and> 0 < getReactorCount cycle_agent \<and>
   reaches_cycle cycle_agent 0 \<and> getPriority cycle_agent 0 0 = Inl CycleDetected \<and>
   \<not> (5::nat) < getReactorCount cycle_agent \<and> getPriority cycle_agent 0 5 = Inl CycleDetected"
proof -
  have n: "2 < getReactorCount chain_agent" "0 < getReactorCount chain_agent"
    by (simp_all add: chain_agent_count)
  have m: "0 < getReactorCount cycle_agent" "\<not> (5::nat) < getReactorCount cycle_agent"
    by (simp_all add: cycle_agent_count)
  have p: "priorityOf chain_agent 0 = 0" "priorityOf chain_agent (Suc 0) = 1"
    by (simp_all add: priorityOf_def chain_agent_priorities)
  have "getPriority chain_agent 2 0 = Inr 2"
    using getPriority_spec [OF chain_agent_owners_valid n(1)] chain_agent_acyclic
    by (simp add: chain_agent_externals chain_agent_owner p)
  moreover have "getPriority chain_agent 0 0 = Inr 0"
    using getPriority_spec [OF chain_agent_owners_valid n(2)] chain_agent_acyclic
    by (simp add: chain_agent_externals)
  moreover have "getPriority cycle_agent 0 0 = Inl CycleDetected"
    "getPriority cycle_agent 0 5 = Inl CycleDetected"
    using getPriority_spec [OF cycle_agent_owners_valid m(1)] cycle_agent_reaches_cycle m(2)
    by blast+
  ultimately show ?thesis
    using n m chain_agent_owners_valid chain_agent_acyclic cycle_agent_owners_valid
      cycle_agent_reaches_cycle by simp
qed

subsection \<open>The bubble sort of the reactors\<close>

lemma inversions_append:
  "inversions (us @ vs) =
     inversions us + inversions vs + sum_list (map (\<lambda>u. length (filter (\<lambda>y. y < u) vs)) us)"
  by (induction us) auto

lemma inversions_swap:
  assumes "b < a"
  shows "inversions (us @ b # a # vs) < inversions (us @ a # b # vs)"
proof -
  have A: "sum_list (map (\<lambda>u. length (filter (\<lambda>y. y < u) (b # a # vs))) us)
      = sum_list (map (\<lambda>u. length (filter (\<lambda>y. y < u) (a # b # vs))) us)"
    by (induction us) auto
  have B: "inversions (b # a # vs) < inversions (a # b # vs)"
    using assms by simp
  show ?thesis
    unfolding inversions_append A using B by linarith
qed

lemma swap_adjacent:
  assumes "Suc i < length xs" "a = xs ! i" "b = xs ! Suc i"
  shows "\<exists>us vs. xs = us @ a # b # vs \<and> xs[i := b, Suc i := a] = us @ b # a # vs"
proof -
  have 1: "xs = take i xs @ a # b # drop (Suc (Suc i)) xs"
    using assms by (simp add: Cons_nth_drop_Suc)
  have len: "length (take i xs) = i" using assms by simp
  let ?us = "take i xs" and ?vs = "drop (Suc (Suc i)) xs"
  have "(?us @ a # b # ?vs)[i := b, Suc i := a] = ?us @ b # a # ?vs"
    using len by (simp add: list_update_append)
  with 1 show ?thesis by metis
qed

lemma sort_for_props:
  assumes "\<forall>r \<in> set rs. getPriority ag r 0 = Inr (p r)" "cnt = int (length rs) - 1"
  shows "\<exists>rs' sw'. sort_for ag rs i cnt sw = Inr (rs', sw') \<and>
           mset rs' = mset rs \<and>
           (\<forall>k. filter (\<lambda>r. p r = k) rs' = filter (\<lambda>r. p r = k) rs) \<and>
           inversions (map p rs') \<le> inversions (map p rs) \<and>
           (sw \<longrightarrow> sw') \<and>
           (sw' \<longrightarrow> sw \<or> inversions (map p rs') < inversions (map p rs)) \<and>
           (\<not> sw' \<longrightarrow> rs' = rs \<and>
              (\<forall>j. i \<le> j \<and> Suc j < length rs \<longrightarrow> p (rs ! j) \<le> p (rs ! Suc j)))"
  using assms
proof (induction ag rs i cnt sw rule: sort_for.induct)
  case (1 ag rs i cnt sw)
  note H = "1.prems"(1) and cnt = "1.prems"(2)
  show ?case
  proof (cases "int i < cnt")
    case False
    then have "\<not> Suc i < length rs" using cnt by simp
    then have "\<forall>j. i \<le> j \<and> Suc j < length rs \<longrightarrow> p (rs ! j) \<le> p (rs ! Suc j)" by auto
    with False show ?thesis by (simp add: sort_for.simps [of ag rs i cnt sw])
  next
    case True
    then have lt: "Suc i < length rs" using cnt by simp
    define a where "a = rs ! i"
    define b where "b = rs ! Suc i"
    have pa: "getPriority ag (rs ! i) 0 = Inr (p a)"
      and pb: "getPriority ag (rs ! (i + 1)) 0 = Inr (p b)"
      using H lt by (simp_all add: a_def b_def)
    show ?thesis
    proof (cases "p b < p a")
      case swap: True
      define rs2 where "rs2 = rs[i := rs ! (i + 1), i + 1 := rs ! i]"
      from swap_adjacent [OF lt a_def b_def] obtain us vs where
        d1: "rs = us @ a # b # vs" and d2: "rs2 = us @ b # a # vs"
        by (auto simp: rs2_def a_def b_def)
      have m2: "mset rs2 = mset rs" by (simp add: d1 d2)
      then have s2: "set rs2 = set rs" by (rule mset_eq_setD)
      have f2: "filter (\<lambda>r. p r = k) rs2 = filter (\<lambda>r. p r = k) rs" for k
        using swap by (auto simp: d1 d2)
      have i2: "inversions (map p rs2) < inversions (map p rs)"
        using inversions_swap [OF swap, of "map p us" "map p vs"] by (simp add: d1 d2)
      have H2: "\<forall>r \<in> set rs2. getPriority ag r 0 = Inr (p r)" using H s2 by simp
      have "length rs2 = length rs" using m2 by (rule mset_eq_length)
      then have c2: "cnt = int (length rs2) - 1" using cnt by simp
      have "\<exists>rs' sw'. sort_for ag rs2 (i + 1) cnt True = Inr (rs', sw') \<and>
           mset rs' = mset rs2 \<and>
           (\<forall>k. filter (\<lambda>r. p r = k) rs' = filter (\<lambda>r. p r = k) rs2) \<and>
           inversions (map p rs') \<le> inversions (map p rs2) \<and>
           (True \<longrightarrow> sw') \<and>
           (sw' \<longrightarrow> True \<or> inversions (map p rs') < inversions (map p rs2)) \<and>
           (\<not> sw' \<longrightarrow> rs' = rs2 \<and>
              (\<forall>j. i + 1 \<le> j \<and> Suc j < length rs2 \<longrightarrow> p (rs2 ! j) \<le> p (rs2 ! Suc j)))"
        using "1.IH"(1) [OF True pb pa swap, folded rs2_def, OF H2 c2] .
      then obtain rs' sw' where r: "sort_for ag rs2 (i + 1) cnt True = Inr (rs', sw')"
        "mset rs' = mset rs2" "\<forall>k. filter (\<lambda>r. p r = k) rs' = filter (\<lambda>r. p r = k) rs2"
        "inversions (map p rs') \<le> inversions (map p rs2)" "sw'"
        by blast
      have "sort_for ag rs i cnt sw = Inr (rs', sw')"
        using True pa pb swap r(1) by (simp add: sort_for.simps [of ag rs i cnt sw] rs2_def)
      with r m2 f2 i2 show ?thesis by auto
    next
      case keep: False
      from "1.IH"(2) [OF True pb pa keep H cnt]
      obtain rs' sw' where r: "sort_for ag rs (i + 1) cnt sw = Inr (rs', sw')"
        "mset rs' = mset rs" "\<forall>k. filter (\<lambda>r. p r = k) rs' = filter (\<lambda>r. p r = k) rs"
        "inversions (map p rs') \<le> inversions (map p rs)" "sw \<longrightarrow> sw'"
        "sw' \<longrightarrow> sw \<or> inversions (map p rs') < inversions (map p rs)"
        "\<not> sw' \<longrightarrow> rs' = rs \<and>
           (\<forall>j. i + 1 \<le> j \<and> Suc j < length rs \<longrightarrow> p (rs ! j) \<le> p (rs ! Suc j))"
        by blast
      have e: "sort_for ag rs i cnt sw = Inr (rs', sw')"
        using True pa pb keep r(1) by (simp add: sort_for.simps [of ag rs i cnt sw])
      have adj: "\<forall>j. i \<le> j \<and> Suc j < length rs \<longrightarrow> p (rs ! j) \<le> p (rs ! Suc j)"
        if "\<forall>j. i + 1 \<le> j \<and> Suc j < length rs \<longrightarrow> p (rs ! j) \<le> p (rs ! Suc j)"
      proof (intro allI impI)
        fix j assume j: "i \<le> j \<and> Suc j < length rs"
        show "p (rs ! j) \<le> p (rs ! Suc j)"
        proof (cases "j = i")
          case True
          with keep show ?thesis by (simp add: a_def b_def)
        next
          case False
          with j that show ?thesis by simp
        qed
      qed
      have "\<not> sw' \<longrightarrow> rs' = rs \<and>
           (\<forall>j. i \<le> j \<and> Suc j < length rs \<longrightarrow> p (rs ! j) \<le> p (rs ! Suc j))"
        using r(7) adj by blast
      with e r(2-6) show ?thesis by blast
    qed
  qed
qed

lemma sort_while_props:
  assumes "\<forall>r \<in> set rs. getPriority ag r 0 = Inr (p r)" "cnt = int (length rs) - 1"
  shows "\<exists>ys. sort_while ag cnt rs = Some (Inr ys) \<and> mset ys = mset rs \<and>
           sorted (map p ys) \<and>
           (\<forall>k. filter (\<lambda>r. p r = k) ys = filter (\<lambda>r. p r = k) rs)"
  using assms
proof (induction rs rule: measure_induct_rule [of "\<lambda>rs. inversions (map p rs)"])
  case (less rs)
  from sort_for_props [OF less.prems, of 0 False]
  obtain rs' sw' where r: "sort_for ag rs 0 cnt False = Inr (rs', sw')"
    "mset rs' = mset rs" "\<forall>k. filter (\<lambda>r. p r = k) rs' = filter (\<lambda>r. p r = k) rs"
    "sw' \<longrightarrow> inversions (map p rs') < inversions (map p rs)"
    "\<not> sw' \<longrightarrow> rs' = rs \<and> (\<forall>j. Suc j < length rs \<longrightarrow> p (rs ! j) \<le> p (rs ! Suc j))"
    by auto
  show ?case
  proof (cases sw')
    case True
    with r(4) have dec: "inversions (map p rs') < inversions (map p rs)" by simp
    have "set rs' = set rs" using r(2) by (rule mset_eq_setD)
    then have H': "\<forall>r \<in> set rs'. getPriority ag r 0 = Inr (p r)" using less.prems(1) by simp
    have "length rs' = length rs" using r(2) by (rule mset_eq_length)
    then have c': "cnt = int (length rs') - 1" using less.prems(2) by simp
    from less.IH [OF dec H' c'] obtain ys where
      ys: "sort_while ag cnt rs' = Some (Inr ys)" "mset ys = mset rs'" "sorted (map p ys)"
        "\<forall>k. filter (\<lambda>r. p r = k) ys = filter (\<lambda>r. p r = k) rs'" by auto
    have "sort_while ag cnt rs = Some (Inr ys)"
      using r(1) True ys(1) by (subst sort_while.simps) simp
    with ys r show ?thesis by simp
  next
    case False
    with r(5) have same: "rs' = rs"
      and adj: "\<forall>j. Suc j < length rs \<longrightarrow> p (rs ! j) \<le> p (rs ! Suc j)" by simp_all
    have "sorted (map p rs)" using adj by (simp add: sorted_iff_nth_Suc)
    moreover have "sort_while ag cnt rs = Some (Inr rs)"
      using r(1) False same by (subst sort_while.simps) simp
    ultimately show ?thesis by simp
  qed
qed

text \<open>
  C1. For an agent with an acyclic dependency graph whose owner table gives every
  external timeline a valid owner and every internal timeline its reactor, and for
  every vector of valid reactor ids: \<open>sort\<close> ends and returns a vector, without an
  error; every priority it compared was returned by \<open>getPriority()\<close>; the result is a
  permutation of the vector, in non-decreasing priority order, and the reactors of each
  priority keep their relative order, so the result is the one stable sort of the
  vector by priority; and whenever the reactor at index \<open>i\<close> depends on the reactor at
  index \<open>j\<close> (some external timeline of the first is an internal timeline of the
  second), \<open>i\<close> is strictly greater than \<open>j\<close>.
\<close>

theorem TeleoReactor_sort_topological:
  assumes "acyclic (dependency ag)" "owners_valid ag" "owners_of_internals ag"
    and "\<forall>r \<in> set reactors. r < getReactorCount ag"
  shows "\<exists>sorted_rs. TeleoReactor_sort ag reactors = Some (Inr sorted_rs) \<and>
     (\<forall>r \<in> set reactors. getPriority ag r 0 = Inr (priorityOf ag r)) \<and>
     mset sorted_rs = mset reactors \<and>
     sorted (map (priorityOf ag) sorted_rs) \<and>
     (\<forall>k. filter (\<lambda>r. priorityOf ag r = k) sorted_rs = filter (\<lambda>r. priorityOf ag r = k) reactors) \<and>
     sorted_rs = sort_key (priorityOf ag) reactors \<and>
     (\<forall>i j. i < length sorted_rs \<and> j < length sorted_rs \<and>
            dependsOn ag (sorted_rs ! i) (sorted_rs ! j) \<longrightarrow> j < i)"
proof -
  let ?p = "priorityOf ag"
  have H: "\<forall>r \<in> set reactors. getPriority ag r 0 = Inr (?p r)"
    using assms(1,2,4) getPriority_acyclic_0 by blast
  from sort_while_props [OF H refl]
  obtain ys where ys: "TeleoReactor_sort ag reactors = Some (Inr ys)" "mset ys = mset reactors"
    "sorted (map ?p ys)" "\<forall>k. filter (\<lambda>r. ?p r = k) ys = filter (\<lambda>r. ?p r = k) reactors"
    unfolding TeleoReactor_sort_def by blast
  have key: "ys = sort_key ?p reactors"
  proof (rule properties_for_sort_key [symmetric])
    show "mset ys = mset reactors" by fact
    show "sorted (map ?p ys)" by fact
    fix k assume "k \<in> set ys"
    have "(\<lambda>x. ?p k = ?p x) = (\<lambda>r. ?p r = ?p k)" by auto
    then show "filter (\<lambda>x. ?p k = ?p x) ys = filter (\<lambda>x. ?p k = ?p x) reactors"
      using ys(4) by simp
  qed
  have topo: "j < i" if ij: "i < length ys" "j < length ys" and d: "dependsOn ag (ys ! i) (ys ! j)"
    for i j
  proof (rule ccontr)
    assume "\<not> j < i"
    then have "i \<le> j" by simp
    with ys(3) ij have le: "?p (ys ! i) \<le> ?p (ys ! j)"
      by (simp add: sorted_iff_nth_mono)
    have "set ys = set reactors" using ys(2) by (rule mset_eq_setD)
    moreover have "ys ! i \<in> set ys" "ys ! j \<in> set ys" using ij by simp_all
    ultimately have b: "ys ! i < getReactorCount ag" "ys ! j < getReactorCount ag"
      using assms(4) by blast+
    from d obtain t where t: "t \<in> set (externals ag (ys ! i))" "t \<in> set (internals ag (ys ! j))"
      by (auto simp: dependsOn_def)
    with assms(3) b have "getOwner ag t = Some (ys ! j)"
      by (simp add: owners_of_internals_def)
    with t b have "(ys ! i, ys ! j) \<in> dependency ag" by (auto simp: dependency_def)
    from priorityOf_edge [OF assms(1,2) this] le show False by simp
  qed
  from ys H key topo show ?thesis by blast
qed

theorem TeleoReactor_sort_topological_witness:
  "acyclic (dependency chain_agent) \<and> owners_valid chain_agent \<and>
   owners_of_internals chain_agent \<and> TeleoReactor_sort chain_agent [2, 0, 1] = Some (Inr [0, 1, 2])"
proof -
  have b: "\<forall>r \<in> set [2, 0, 1]. r < getReactorCount chain_agent"
    by (simp add: chain_agent_count)
  have p: "priorityOf chain_agent 0 = 0" "priorityOf chain_agent (Suc 0) = 1"
    "priorityOf chain_agent 2 = 2"
    by (simp_all add: priorityOf_def chain_agent_priorities)
  have "sort_key (priorityOf chain_agent) [2, 0, 1] = [0, 1, 2]"
    by (simp add: p)
  with TeleoReactor_sort_topological [OF chain_agent_acyclic chain_agent_owners_valid
      chain_agent_owners_of_internals b]
  show ?thesis
    using chain_agent_acyclic chain_agent_owners_valid chain_agent_owners_of_internals by auto
qed

section \<open>Properties of the reactor base class\<close>

subsection \<open>Latency and look-ahead\<close>

lemma call_keeps:
  "m_latency (fst (call hooks c s)) = m_latency (fst s) \<and>
   m_lookAhead (fst (call hooks c s)) = m_lookAhead (fst s)"
  by (cases c; cases s)
     (simp_all add: doSynchronize_def doResume_def doHandleInit_def doHandleTickStart_def
        split: prod.splits)

lemma lifetime_keeps:
  "m_latency (fst (lifetime hooks cs s)) = m_latency (fst s) \<and>
   m_lookAhead (fst (lifetime hooks cs s)) = m_lookAhead (fst s)"
  by (induction cs arbitrary: s) (simp_all add: call_keeps)

text \<open>
  C3. Constructing a reactor whose latency exceeds its look-ahead fails with the error
  of the constructor's check, for both constructors (for the one that reads a
  configuration element: when the name and the latency are there, so that the check is
  reached); no reactor exists then, so no tick runs on it. A reactor that was
  constructed holds the latency and the look-ahead it was given, and after every
  sequence of calls on it, whatever the hooks of its class do, \<open>getLatency()\<close> and
  \<open>getLookAhead()\<close> return what they returned at construction, and
  \<open>getLatency() \<le> getLookAhead()\<close>.
\<close>

theorem latency_le_lookAhead:
  "(lookAhead < latency \<longrightarrow>
      TeleoReactor_new agentName name lookAhead latency shouldLog = Inl LatencyExceedsLookAhead)
   \<and> (configData ''name'' = Some n \<and> configData ''latency'' = Some l \<and>
       (case configData ''lookAhead'' of None \<Rightarrow> getFinalTick lib | Some v \<Rightarrow> atoi lib v)
          < atoi lib l \<longrightarrow>
      TeleoReactor_fromXML lib agentName configData logDefault = Inl LatencyExceedsLookAhead)
   \<and> (\<forall>this. TeleoReactor_new agentName name lookAhead latency shouldLog = Inr this \<longrightarrow>
         getLatency this = latency \<and> getLookAhead this = lookAhead)
   \<and> (\<forall>this. TeleoReactor_new agentName name lookAhead latency shouldLog = Inr this \<or>
             TeleoReactor_fromXML lib agentName configData logDefault = Inr this \<longrightarrow>
         getLatency (fst (lifetime hooks calls (this, w))) = getLatency this \<and>
         getLookAhead (fst (lifetime hooks calls (this, w))) = getLookAhead this \<and>
         getLatency (fst (lifetime hooks calls (this, w)))
           \<le> getLookAhead (fst (lifetime hooks calls (this, w))))"
  by (auto simp: TeleoReactor_new_def TeleoReactor_fromXML_def getLookAheadFromXML_def
        extractData_def getLatency_def getLookAhead_def lifetime_keeps Let_def
        split: sum.splits option.splits if_splits)

theorem latency_le_lookAhead_witness:
  "(2::int) < 5 \<and>
   TeleoReactor_new ''agent'' ''planner'' 2 5 False = Inl LatencyExceedsLookAhead \<and>
   TeleoReactor_fromXML example_lib ''agent''
      [''name'' \<mapsto> ''planner'', ''latency'' \<mapsto> ''5'', ''lookAhead'' \<mapsto> ''2''] False
     = Inl LatencyExceedsLookAhead \<and>
   (\<exists>this. TeleoReactor_new ''agent'' ''planner'' 5 2 False = Inr this \<and>
      getLatency (fst (lifetime (default_hooks :: (unit, unit) Hooks)
         [CallHandleInit 0, CallHandleTickStart, CallSynchronize, CallRequest (Token 1 ''go''),
          CallResume, CallRecall (Token 1 ''go'')] (this, example_world))) = 2 \<and>
      getLookAhead (fst (lifetime (default_hooks :: (unit, unit) Hooks)
         [CallHandleInit 0, CallHandleTickStart, CallSynchronize, CallRequest (Token 1 ''go''),
          CallResume, CallRecall (Token 1 ''go'')] (this, example_world))) = 5)"
proof -
  let ?cfg = "[''name'' \<mapsto> ''planner'', ''latency'' \<mapsto> ''5'', ''lookAhead'' \<mapsto> ''2'']"
  let ?calls = "[CallHandleInit 0, CallHandleTickStart, CallSynchronize,
      CallRequest (Token 1 ''go''), CallResume, CallRecall (Token 1 ''go'')] :: unit reactor_call list"
  note bad = latency_le_lookAhead [where lookAhead = 2 and latency = 5 and agentName = "''agent''"
      and name = "''planner''" and shouldLog = False and configData = ?cfg and n = "''planner''"
      and l = "''5''" and lib = example_lib and logDefault = False
      and hooks = "default_hooks :: (unit, unit) Hooks" and calls = ?calls and w = example_world]
  note good = latency_le_lookAhead [where lookAhead = 5 and latency = 2 and agentName = "''agent''"
      and name = "''planner''" and shouldLog = False and configData = ?cfg and n = "''planner''"
      and l = "''5''" and lib = example_lib and logDefault = False
      and hooks = "default_hooks :: (unit, unit) Hooks" and calls = ?calls and w = example_world]
  have a: "TeleoReactor_new ''agent'' ''planner'' 2 5 False = Inl LatencyExceedsLookAhead"
    using bad by simp
  have b: "TeleoReactor_fromXML example_lib ''agent'' ?cfg False = Inl LatencyExceedsLookAhead"
    using bad by (simp add: example_lib_def)
  obtain this where t: "TeleoReactor_new ''agent'' ''planner'' 5 2 False = Inr this"
    by (simp add: TeleoReactor_new_def)
  from good t
  have "getLatency (fst (lifetime (default_hooks :: (unit, unit) Hooks) ?calls (this, example_world))) = 2"
    "getLookAhead (fst (lifetime (default_hooks :: (unit, unit) Hooks) ?calls (this, example_world))) = 5"
    by auto
  with a b t show ?thesis by auto
qed

subsection \<open>The factory table\<close>

text \<open>
  C9. On a table that binds names to factories only: \<open>registerFactory\<close> fails with
  \<open>AlreadyRegistered\<close> when the name is bound, and otherwise returns the table with the
  binding from the name to the factory added, in which \<open>getFactory\<close> finds the factory
  under that name and answers for every other name as before; \<open>getFactory\<close> returns
  \<open>noId\<close> for a name that is not bound and the bound factory for a name that is. The
  empty table binds names to factories only, and so does the table after the
  registration of a factory.
\<close>

theorem registerFactory_getFactory:
  assumes "factories_only lookupTable"
  shows "(lookupTable name \<noteq> None \<longrightarrow>
            registerFactory lookupTable name factory = Inl (AlreadyRegistered name))
     \<and> (lookupTable name = None \<longrightarrow>
            registerFactory lookupTable name factory = Inr (lookupTable(name \<mapsto> factory)) \<and>
            getFactory (lookupTable(name \<mapsto> factory)) name = factory \<and>
            (\<forall>other. other \<noteq> name \<longrightarrow>
               getFactory (lookupTable(name \<mapsto> factory)) other = getFactory lookupTable other) \<and>
            (factory \<noteq> NoId \<longrightarrow> factories_only (lookupTable(name \<mapsto> factory))))
     \<and> (lookupTable name = None \<longrightarrow> getFactory lookupTable name = NoId)
     \<and> (\<forall>registered. lookupTable name = Some registered \<longrightarrow>
            getFactory lookupTable name = registered \<and> registered \<noteq> NoId)
     \<and> factories_only (\<lambda>name. None)"
  using assms
  by (auto simp: registerFactory_def getFactory_def map_insert_def factories_only_def
        split: option.splits)

theorem registerFactory_getFactory_witness:
  "factories_only [''planner'' \<mapsto> FactoryId 7] \<and>
   registerFactory [''planner'' \<mapsto> FactoryId 7] ''planner'' (FactoryId 8)
     = Inl (AlreadyRegistered ''planner'') \<and>
   registerFactory [''planner'' \<mapsto> FactoryId 7] ''executive'' (FactoryId 8)
     = Inr [''planner'' \<mapsto> FactoryId 7, ''executive'' \<mapsto> FactoryId 8] \<and>
   getFactory [''planner'' \<mapsto> FactoryId 7] ''planner'' = FactoryId 7 \<and>
   getFactory [''planner'' \<mapsto> FactoryId 7] ''executive'' = NoId"
proof -
  have ok: "factories_only [''planner'' \<mapsto> FactoryId 7]"
    by (simp add: factories_only_def)
  show ?thesis
    using registerFactory_getFactory [OF ok, of "''planner''" "FactoryId 8"]
      registerFactory_getFactory [OF ok, of "''executive''" "FactoryId 8"] ok
    by simp
qed

subsection \<open>Requests and recalls\<close>

text \<open>
  C5. \<open>request(g)\<close> on the server connector of a reactor returns the world in which the
  agent has logged the goal, the line \<open>[name][tick]Request received: g\<close> has been written
  to the log, and then \<open>handleRequest(g)\<close> of that reactor's class has run on the world
  so logged; and the same for \<open>recall(g)\<close> with \<open>handleRecall(g)\<close>. The whole delivery is
  in the result of the call: nothing of it is left for later. With the empty handlers
  of the base class the result is the world with the two log entries added.
\<close>

theorem request_recall_synchronous:
  "TeleoServer_request vtable deref server goal w =
     handleRequest (vtable (m_reactor server)) goal
       (w\<lparr>w_requestLog := w_requestLog w @ [goal],
          w_trexLog := w_trexLog w @
            [''['' @ m_name (deref (m_reactor server)) @ '']['' @ show_int (w_currentTick w) @ '']''
               @ ''Request received: '' @ token_toString goal]\<rparr>)
   \<and> TeleoServer_recall vtable deref server goal w =
     handleRecall (vtable (m_reactor server)) goal
       (w\<lparr>w_recallLog := w_recallLog w @ [goal],
          w_trexLog := w_trexLog w @
            [''['' @ m_name (deref (m_reactor server)) @ '']['' @ show_int (w_currentTick w) @ '']''
               @ ''Recall received: '' @ token_toString goal]\<rparr>)
   \<and> TeleoServer_request (\<lambda>r. default_hooks) deref server goal w =
       w\<lparr>w_requestLog := w_requestLog w @ [goal],
          w_trexLog := w_trexLog w @
            [''['' @ m_name (deref (m_reactor server)) @ '']['' @ show_int (w_currentTick w) @ '']''
               @ ''Request received: '' @ token_toString goal]\<rparr>
   \<and> TeleoServer_recall (\<lambda>r. default_hooks) deref server goal w =
       w\<lparr>w_recallLog := w_recallLog w @ [goal],
          w_trexLog := w_trexLog w @
            [''['' @ m_name (deref (m_reactor server)) @ '']['' @ show_int (w_currentTick w) @ '']''
               @ ''Recall received: '' @ token_toString goal]\<rparr>"
  by (simp add: TeleoServer_request_def TeleoServer_recall_def TeleoReactor_request_def
        TeleoReactor_recall_def logRequest_def logRecall_def TREXLog_def nameString_def
        getName_def getCurrentTick_def default_hooks_def Let_def)

section \<open>Properties of the XML form of domains and observations\<close>

subsection \<open>The text of a domain\<close>

lemma domain_val_print_xml_append:
  "domain_val_print_xml eu out d v = out @ value_text eu d v"
  by (simp add: domain_val_print_xml_def value_text_def)

lemma foldl_domain_val_print_xml:
  "foldl (\<lambda>out v. domain_val_print_xml eu out d v) out vs
     = out @ concat (map (value_text eu d) vs)"
proof (induction vs arbitrary: out)
  case Nil
  show ?case by simp
next
  case (Cons v vs)
  show ?case
    by (simp add: Cons.IH) (simp add: domain_val_print_xml_append)
qed

lemma print_xml_append:
  assumes "\<not> isEmpty d"
  shows "print_xml eu out d = (out @ xml_text eu d, None)"
proof -
  have "print_xml eu out' d =
      (out' @ (if isSingleton d then value_text eu d (getSingletonValue d)
         else if isEnumerated d then
           (if getValues d \<noteq> [] then
              ''<set type=\"'' @ getTypeName d @ ''\">'' @ concat (map (value_text eu d) (getValues d))
                @ ''</set>''
            else ''<set type=\"'' @ getTypeName d @ ''\"/>'')
         else if isInterval d then
           ''<interval type=\"'' @ getTypeName d @ ''\" min=\"''
           @ domain_val_to_str eu d (getLowerBound d) (symbolic_default eu)
           @ ''\" max=\"''
           @ domain_val_to_str eu d (getUpperBound d) (symbolic_default eu)
           @ ''\"/>''
         else []), None)" for out'
    using assms
    by (simp add: print_xml_def foldl_domain_val_print_xml domain_val_print_xml_append)
  from this [of out] this [of "[]"] show ?thesis
    by (simp add: xml_text_def)
qed

lemma printXML_for_text:
  "cnt = length ps \<Longrightarrow> \<forall>k < length ps. subscript k = Inr (ps ! k) \<Longrightarrow>
   \<forall>p \<in> set ps. \<not> isEmpty (snd p) \<Longrightarrow> i \<le> cnt \<Longrightarrow>
   printXML_for eu subscript i cnt out = (out @ concat (map (assert_text eu) (drop i ps)), None)"
proof (induction eu subscript i cnt out rule: printXML_for.induct)
  case (1 eu subscript i cnt out)
  note len = "1.prems"(1) and subs = "1.prems"(2) and nonempty = "1.prems"(3)
  show ?case
  proof (cases "i < cnt")
    case False
    with "1.prems"(4) len have "drop i ps = []" by simp
    with False show ?thesis
      by (subst printXML_for.simps) simp
  next
    case True
    then have il: "i < length ps" using len by simp
    have sub: "subscript i = Inr (ps ! i)" using subs il by simp
    have ne: "\<not> isEmpty (snd (ps ! i))" using nonempty il by simp
    have px: "print_xml eu (out @ ''<Assert name=\"'' @ fst (ps ! i) @ ''\">'') (snd (ps ! i))
        = ((out @ ''<Assert name=\"'' @ fst (ps ! i) @ ''\">'') @ xml_text eu (snd (ps ! i)), None)"
      by (rule print_xml_append [OF ne])
    have "printXML_for eu subscript (i + 1) cnt
            (((out @ ''<Assert name=\"'' @ fst (ps ! i) @ ''\">'') @ xml_text eu (snd (ps ! i)))
               @ ''</Assert>'')
          = ((((out @ ''<Assert name=\"'' @ fst (ps ! i) @ ''\">'') @ xml_text eu (snd (ps ! i)))
               @ ''</Assert>'') @ concat (map (assert_text eu) (drop (i + 1) ps)), None)"
      using True by (intro "1.IH" [OF True sub px [symmetric] refl len subs nonempty]) simp
    moreover have "drop i ps = ps ! i # drop (i + 1) ps"
      using il by (simp add: Cons_nth_drop_Suc)
    ultimately show ?thesis
      using True sub px
      by (subst printXML_for.simps) (simp add: assert_text_def)
  qed
qed

subsection \<open>Decimal numerals\<close>




















lemma foldl_LinkEndChild:
  "foldl (\<lambda>elem v. LinkEndChild (f v) elem) (TiXmlElement nm attrs cs) vs
     = TiXmlElement nm attrs (cs @ map f vs)"
  by (induction vs arbitrary: cs) (simp_all add: LinkEndChild_def)

subsection \<open>Singleton, empty and enumerated domains\<close>


lemma example_europa_simps:
  "is_bool example_europa ''bool''" "\<not> is_bool example_europa ''int''"
  "is_int example_europa ''int''" "\<not> is_bool example_europa ''Color''"
  "\<not> is_bool example_europa ''float''" "\<not> is_int example_europa ''float''"
  by (simp_all add: is_bool_def is_int_def example_europa_def)






text \<open>
  C7. For every empty domain, \<open>to_xml\<close> returns no element, and \<open>print_xml\<close> writes
  nothing to the output stream: its check fails, and the stream is as it was.
\<close>

theorem empty_domain_xml:
  "isEmpty d \<longrightarrow> to_xml eu d = None \<and> print_xml eu out d = (out, Some UnknownDomainType)"
  by (simp add: to_xml_def print_xml_def)

theorem empty_domain_xml_witness:
  "isEmpty empty_interval \<and> to_xml example_europa empty_interval = None \<and>
   print_xml example_europa ''<Assert name=\"speed\">'' empty_interval
     = (''<Assert name=\"speed\">'', Some UnknownDomainType)"
proof -
  have e: "isEmpty empty_interval" by (simp add: empty_interval_def)
  with empty_domain_xml [of empty_interval example_europa "''<Assert name=\"speed\">''"]
  show ?thesis by simp
qed

text \<open>
  C8 as stated fails: for the empty enumerated domain of type \<open>Color\<close> the check of
  \<open>print_xml\<close> fails and nothing is written, and \<open>to_xml\<close> returns no element; the text
  \<open><set type="Color"/>\<close> is not produced.
\<close>

theorem enumerated_domain_xml_counterexample:
  "isEmpty empty_Color \<and> isEnumerated empty_Color \<and> getTypeName empty_Color = ''Color'' \<and>
   getValues empty_Color = [] \<and>
   print_xml example_europa [] empty_Color = ([], Some UnknownDomainType) \<and>
   fst (print_xml example_europa [] empty_Color) \<noteq> ''<set type=\"Color\"/>'' \<and>
   to_xml example_europa empty_Color = None"
  by (simp add: print_xml_def to_xml_def empty_Color_def)

text \<open>
  C8 (as amended). For a domain that passes the check of \<open>print_xml\<close> (it does not
  report to be empty), is not a singleton and is enumerated: when its list of values is
  empty \<open>print_xml\<close> writes \<open><set type="TYPE"/>\<close> and nothing else; when the list has values
  it writes \<open><set type="TYPE">\<close>, then the element of each value in the order of the list,
  then \<open></set>\<close>. \<open>to_xml\<close> returns the element \<open>set\<close> with the attribute \<open>type\<close> and one
  child per value.
\<close>

theorem enumerated_domain_xml:
  assumes "\<not> isEmpty d" "\<not> isSingleton d" "isEnumerated d"
  shows
   "(getValues d = [] \<longrightarrow>
       print_xml eu out d = (out @ ''<set type=\"'' @ getTypeName d @ ''\"/>'', None))
    \<and> (getValues d \<noteq> [] \<longrightarrow>
       print_xml eu out d
         = (out @ ''<set type=\"'' @ getTypeName d @ ''\">''
              @ concat (map (\<lambda>v. domain_val_print_xml eu [] d v) (getValues d))
              @ ''</set>'', None))
    \<and> to_xml eu d
         = Some (TiXmlElement ''set'' [(''type'', getTypeName d)]
                   (map (domain_val_to_xml eu d) (getValues d)))"
proof -
  have "value_text eu d = (\<lambda>v. domain_val_print_xml eu [] d v)"
    by (auto simp: value_text_def)
  then show ?thesis
    using assms
    by (simp add: print_xml_def to_xml_def foldl_domain_val_print_xml SetAttribute_def
          foldl_LinkEndChild)
qed

theorem enumerated_domain_xml_witness:
  "\<not> isEmpty two_Colors \<and> \<not> isSingleton two_Colors \<and> isEnumerated two_Colors \<and>
   print_xml example_europa [] two_Colors
     = (''<set type=\"Color\"><symbol type=\"Color\" value=\"red\" /><symbol type=\"Color\" value=\"blue\" /></set>'',
        None) \<and>
   \<not> isEmpty unlisted_Colors \<and> \<not> isSingleton unlisted_Colors \<and> isEnumerated unlisted_Colors \<and>
   print_xml example_europa [] unlisted_Colors = (''<set type=\"Color\"/>'', None)"
proof -
  have t: "\<not> isEmpty two_Colors" "\<not> isSingleton two_Colors" "isEnumerated two_Colors"
    "getValues two_Colors = [1, 2]" "getTypeName two_Colors = ''Color''"
    "\<not> isEntity two_Colors" "\<not> isNumeric two_Colors"
    by (simp_all add: two_Colors_def)
  have u: "\<not> isEmpty unlisted_Colors" "\<not> isSingleton unlisted_Colors"
    "isEnumerated unlisted_Colors" "getValues unlisted_Colors = []"
    "getTypeName unlisted_Colors = ''Color''"
    by (simp_all add: unlisted_Colors_def)
  have v: "domain_val_print_xml example_europa [] two_Colors 1 = ''<symbol type=\"Color\" value=\"red\" />''"
    "domain_val_print_xml example_europa [] two_Colors 2 = ''<symbol type=\"Color\" value=\"blue\" />''"
    by (simp_all add: domain_val_print_xml_def t example_europa_simps string_val_to_str_def)
       (simp_all add: example_europa_def)
  from enumerated_domain_xml [OF t(1-3), of example_europa "[]"]
  have 1: "print_xml example_europa [] two_Colors
     = (''<set type=\"Color\"><symbol type=\"Color\" value=\"red\" /><symbol type=\"Color\" value=\"blue\" /></set>'',
        None)"
    by (simp add: t v)
  from enumerated_domain_xml [OF u(1-3), of example_europa "[]"]
  have 2: "print_xml example_europa [] unlisted_Colors = (''<set type=\"Color\"/>'', None)"
    by (simp add: u)
  from 1 2 t u show ?thesis by simp
qed

subsection \<open>Observations\<close>

text \<open>
  C10 (as amended). For an observation whose \<open>operator[]\<close> gives the parameters \<open>ps\<close> and
  whose count is their number, none of the parameters' domains being empty: with no
  parameter
  \<open>printXML\<close> writes the single element
  \<open><Observation on="NAME" predicate="PRED" />\<close>; with one parameter or more it writes
  \<open><Observation on="NAME" predicate="PRED">\<close>, then for each parameter, in increasing
  order of the index, \<open><Assert name="PARAM">\<close>, what \<open>print_xml\<close> writes for the
  parameter's domain, and \<open></Assert>\<close>, then \<open></Observation>\<close>.
\<close>

theorem Observation_printXML_text:
  assumes "countParameters obs = length ps"
    and "\<forall>k < length ps. subscript k = Inr (ps ! k)"
    and "\<forall>p \<in> set ps. \<not> isEmpty (snd p)"
  shows
   "(length ps = 0 \<longrightarrow>
       printXML eu subscript obs out
         = (out @ ''<Observation on=\"'' @ m_objectName obs @ ''\" predicate=\"''
              @ m_predicateName obs @ ''\" />'', None))
    \<and> (1 \<le> length ps \<longrightarrow>
       printXML eu subscript obs out
         = (out @ ''<Observation on=\"'' @ m_objectName obs @ ''\" predicate=\"''
              @ m_predicateName obs @ ''\">''
              @ concat (map (\<lambda>p. ''<Assert name=\"'' @ fst p @ ''\">''
                                @ fst (print_xml eu [] (snd p)) @ ''</Assert>'') ps)
              @ ''</Observation>'', None))"
proof (intro conjI impI)
  assume "length ps = 0"
  with assms(1) show "printXML eu subscript obs out
         = (out @ ''<Observation on=\"'' @ m_objectName obs @ ''\" predicate=\"''
              @ m_predicateName obs @ ''\" />'', None)"
    by (simp add: printXML_def getObjectName_def getPredicate_def)
next
  assume n: "1 \<le> length ps"
  let ?open = "out @ ''<Observation on=\"'' @ getObjectName obs @ ''\" predicate=\"''
                   @ getPredicate obs @ ''\">''"
  have a: "assert_text eu = (\<lambda>p. ''<Assert name=\"'' @ fst p @ ''\">''
                                @ fst (print_xml eu [] (snd p)) @ ''</Assert>'')"
    by (auto simp: assert_text_def xml_text_def)
  have "printXML_for eu subscript 0 (countParameters obs) ?open
      = (?open @ concat (map (assert_text eu) (drop 0 ps)), None)"
    by (rule printXML_for_text [OF assms]) simp
  then show "printXML eu subscript obs out
         = (out @ ''<Observation on=\"'' @ m_objectName obs @ ''\" predicate=\"''
              @ m_predicateName obs @ ''\">''
              @ concat (map (\<lambda>p. ''<Assert name=\"'' @ fst p @ ''\">''
                                @ fst (print_xml eu [] (snd p)) @ ''</Assert>'') ps)
              @ ''</Observation>'', None)"
    using n assms(1) by (cases ps) (simp_all add: printXML_def a getObjectName_def getPredicate_def)
qed

theorem Observation_printXML_text_witness:
  "countParameters example_observation = length [(''x'', int_42), (''ok'', bool_true)] \<and>
   ObservationByValue_index example_observation 0 = Inr (''x'', int_42) \<and>
   ObservationByValue_index example_observation 1 = Inr (''ok'', bool_true) \<and>
   \<not> isEmpty int_42 \<and> \<not> isEmpty bool_true \<and>
   printXML example_europa (ObservationByValue_index example_observation) example_observation []
     = (''<Observation on=\"nav\" predicate=\"At\"><Assert name=\"x\"><value type=\"int\" name=\"42\" /></Assert><Assert name=\"ok\"><value type=\"bool\" name=\"true\" /></Assert></Observation>'',
        None) \<and>
   printXML example_europa (ObservationByValue_index (ObservationByValue_new ''nav'' ''Idle''))
       (ObservationByValue_new ''nav'' ''Idle'') []
     = (''<Observation on=\"nav\" predicate=\"Idle\" />'', None)"
proof -
  let ?ps = "[(''x'', int_42), (''ok'', bool_true)]"
  have c: "countParameters example_observation = length ?ps"
    by (simp add: example_observation_def push_back_def ObservationByValue_new_def
          countParameters_def)
  have ix: "ObservationByValue_index example_observation 0 = Inr (''x'', int_42)"
    "ObservationByValue_index example_observation 1 = Inr (''ok'', bool_true)"
    by (simp_all add: example_observation_def push_back_def ObservationByValue_new_def
          countParameters_def ObservationByValue_index_def)
  have s: "\<forall>k < length ?ps. ObservationByValue_index example_observation k = Inr (?ps ! k)"
    using ix by (simp add: less_Suc_eq)
  have ne: "\<forall>p \<in> set ?ps. \<not> isEmpty (snd p)"
    by (simp add: int_42_def bool_true_def)
  have nm: "m_objectName example_observation = ''nav''" "m_predicateName example_observation = ''At''"
    by (simp_all add: example_observation_def push_back_def ObservationByValue_new_def)
  have px: "fst (print_xml example_europa [] int_42) = ''<value type=\"int\" name=\"42\" />''"
    "fst (print_xml example_europa [] bool_true) = ''<value type=\"bool\" name=\"true\" />''"
    by (simp_all add: print_xml_def domain_val_print_xml_def int_42_def bool_true_def
          is_bool_def is_int_def example_europa_def bool_val_to_str_def int_val_to_str_def
          static_cast_int_def in_int_range_def truncate_double_def show_int_def show_nat.simps
          digit_char_def)
  from Observation_printXML_text [OF c s ne, of example_europa "[]"]
  have 1: "printXML example_europa (ObservationByValue_index example_observation)
      example_observation []
     = (''<Observation on=\"nav\" predicate=\"At\"><Assert name=\"x\"><value type=\"int\" name=\"42\" /></Assert><Assert name=\"ok\"><value type=\"bool\" name=\"true\" /></Assert></Observation>'',
        None)"
    by (simp add: nm px)
  let ?idle = "ObservationByValue_new ''nav'' ''Idle''"
  have c0: "countParameters ?idle = length ([] :: (LabelStr \<times> AbstractDomain) list)"
    by (simp add: ObservationByValue_new_def countParameters_def)
  from Observation_printXML_text [OF c0, of "ObservationByValue_index ?idle" example_europa "[]"]
  have 2: "printXML example_europa (ObservationByValue_index ?idle) ?idle []
     = (''<Observation on=\"nav\" predicate=\"Idle\" />'', None)"
    by (simp add: ObservationByValue_new_def)
  from c ix 1 2 show ?thesis by (simp add: int_42_def bool_true_def)
qed

text \<open>
  C10 as stated fails: for the observation on \<open>nav\<close> with the parameters \<open>x\<close> (the integer
  42), \<open>c\<close> (the empty domain of type \<open>Color\<close>) and \<open>ok\<close> (true), whose count is 3 and
  whose \<open>operator[]\<close> gives these three, the check of \<open>print_xml\<close> fails at the second
  parameter: \<open>printXML\<close> ends with that error after \<open><Assert name="c">\<close>, and writes neither
  \<open></Assert>\<close> for it, nor the third parameter, nor \<open></Observation>\<close>.
\<close>

theorem Observation_printXML_text_counterexample:
  "countParameters observation_with_empty_domain = 3 \<and>
   ObservationByValue_index observation_with_empty_domain 0 = Inr (''x'', int_42) \<and>
   ObservationByValue_index observation_with_empty_domain 1 = Inr (''c'', empty_Color) \<and>
   ObservationByValue_index observation_with_empty_domain 2 = Inr (''ok'', bool_true) \<and>
   isEmpty empty_Color \<and>
   printXML example_europa (ObservationByValue_index observation_with_empty_domain)
       observation_with_empty_domain []
     = (''<Observation on=\"nav\" predicate=\"At\"><Assert name=\"x\"><value type=\"int\" name=\"42\" /></Assert><Assert name=\"c\">'',
        Some UnknownDomainType)"
proof -
  let ?obs = observation_with_empty_domain
  have c: "countParameters ?obs = 3"
    by (simp add: observation_with_empty_domain_def push_back_def ObservationByValue_new_def
          countParameters_def)
  have ix: "ObservationByValue_index ?obs 0 = Inr (''x'', int_42)"
    "ObservationByValue_index ?obs 1 = Inr (''c'', empty_Color)"
    "ObservationByValue_index ?obs 2 = Inr (''ok'', bool_true)"
    by (simp_all add: observation_with_empty_domain_def push_back_def ObservationByValue_new_def
          countParameters_def ObservationByValue_index_def)
  have nm: "getObjectName ?obs = ''nav''" "getPredicate ?obs = ''At''"
    by (simp_all add: observation_with_empty_domain_def push_back_def ObservationByValue_new_def
          getObjectName_def getPredicate_def)
  have ix1: "ObservationByValue_index ?obs (Suc 0) = Inr (''c'', empty_Color)"
    using ix(2) by simp
  have e: "isEmpty empty_Color" by (simp add: empty_Color_def)
  have px: "print_xml example_europa out int_42 = (out @ ''<value type=\"int\" name=\"42\" />'', None)"
    for out
    by (simp add: print_xml_def domain_val_print_xml_def int_42_def
          is_bool_def is_int_def example_europa_def int_val_to_str_def
          static_cast_int_def in_int_range_def truncate_double_def show_int_def show_nat.simps
          digit_char_def)
  have pe: "print_xml example_europa out empty_Color = (out, Some UnknownDomainType)" for out
    using e by (simp add: print_xml_def)
  have step1: "printXML_for example_europa (ObservationByValue_index ?obs) (Suc 0) 3 out
      = (out @ ''<Assert name=\"c\">'', Some UnknownDomainType)" for out
    by (subst printXML_for.simps) (simp add: ix1 pe)
  have step0: "printXML_for example_europa (ObservationByValue_index ?obs) 0 3 out
      = (out @ ''<Assert name=\"x\"><value type=\"int\" name=\"42\" /></Assert><Assert name=\"c\">'',
         Some UnknownDomainType)" for out
    by (subst printXML_for.simps) (simp add: ix px step1)
  have "printXML example_europa (ObservationByValue_index ?obs) ?obs []
     = (''<Observation on=\"nav\" predicate=\"At\"><Assert name=\"x\"><value type=\"int\" name=\"42\" /></Assert><Assert name=\"c\">'',
        Some UnknownDomainType)"
    by (simp add: printXML_def c nm step0)
  with c ix e show ?thesis by simp
qed

end
